theory Spec2Isabelle
  imports Main
begin

section \<open>Python values and syntax trees as the visitor sees them\<close>

text \<open>
  \<^verbatim>\<open>scripts/pycount.py\<close> walks a tree of \<^verbatim>\<open>ast.AST\<close> objects with a subclass of
  \<^verbatim>\<open>ast.NodeVisitor\<close>. The visitor never looks at a node's Python type
  other than through its class name (for dispatch) and through
  \<^verbatim>\<open>isinstance(_, AST)\<close> and \<^verbatim>\<open>isinstance(_, list)\<close>, and it reads
  fields by name. A value is therefore one of: \<^verbatim>\<open>None\<close>, a string, an integer
  (bools included, as in Python), a list, or an AST node made of its class name, its
  fields in \<^verbatim>\<open>_fields\<close> order, and its position attributes
  \<^verbatim>\<open>(lineno, col_offset)\<close> when the node has them.
\<close>

datatype pyval =
    PNone
  | PStr string
  | PInt int
  | PList "pyval list"
  | PNode string "(string \<times> pyval) list" "(int \<times> int) option"

datatype error = AttributeError | TypeError | RecursionError

text \<open>
  One row handed to \<^verbatim>\<open>writer.writerow\<close>:
  \<^verbatim>\<open>[name, node.lineno, node.col_offset + 1, self.fname]\<close>. The name is whatever
  Python value the caller passed.
\<close>

record row =
  row_name :: pyval
  row_line :: int
  row_column :: int
  row_file :: string

text \<open>
  The outcome of running a piece of the visitor: the rows it wrote, in order, and the
  exception that stopped it, if any. The visitor only ever appends to the writer and
  never reads it back, so the rows written by a statement sequence are the rows of its
  parts, up to the first part that raises.
\<close>

type_synonym outcome = "row list \<times> error option"

definition ok :: outcome where
  "ok = ([], None)"

definition raise :: "error \<Rightarrow> outcome" where
  "raise e = ([], Some e)"

fun andthen :: "outcome \<Rightarrow> outcome \<Rightarrow> outcome" where
  "andthen (rs, None) (rs', e) = (rs @ rs', e)"
| "andthen (rs, Some e) q = (rs, Some e)"

fun seqs :: "outcome list \<Rightarrow> outcome" where
  "seqs [] = ok"
| "seqs (p # ps) = andthen p (seqs ps)"

definition rows :: "outcome \<Rightarrow> row list" where
  "rows p = fst p"

definition raised :: "outcome \<Rightarrow> error option" where
  "raised p = snd p"

text \<open>The occurrence of the specification: name, line and column of a row.\<close>

definition occurrence :: "row \<Rightarrow> pyval \<times> int \<times> int" where
  "occurrence r = (row_name r, row_line r, row_column r)"

definition row_pos :: "row \<Rightarrow> int \<times> int" where
  "row_pos r = (row_line r, row_column r)"

subsection \<open>The Python operations the visitor uses\<close>

text \<open>\<^verbatim>\<open>isinstance(v, ast.AST)\<close>\<close>

fun is_AST :: "pyval \<Rightarrow> bool" where
  "is_AST (PNode cls fs pos) = True"
| "is_AST v = False"

text \<open>
  \<^verbatim>\<open>node.field\<close>. A node has the fields that were set on it. For a field that the
  grammar of \<^verbatim>\<open>ast\<close> marks optional (\<^verbatim>\<open>?\<close>) the node class carries the
  default \<^verbatim>\<open>None\<close>, so reading it from a node that never set it gives \<^verbatim>\<open>None\<close>;
  reading any other unset field raises. The table lists the optional fields among the field
  names the visitor reads. Values that are not nodes have none of these fields.
\<close>

definition optional_fields :: "(string \<times> string) list" where
  "optional_fields =
     [(''keyword'', ''arg''), (''ImportFrom'', ''module''), (''alias'', ''asname''),
      (''MatchAs'', ''name''), (''MatchStar'', ''name''), (''ExceptHandler'', ''name''),
      (''arguments'', ''vararg''), (''arguments'', ''kwarg''),
      (''Return'', ''value''), (''Yield'', ''value''), (''AnnAssign'', ''value'')]"

fun getattr :: "pyval \<Rightarrow> string \<Rightarrow> error + pyval" where
  "getattr (PNode cls fs pos) f =
     (case map_of fs f of
        None \<Rightarrow> if (cls, f) \<in> set optional_fields then Inr PNone else Inl AttributeError
      | Some v \<Rightarrow> Inr v)"
| "getattr v f = Inl AttributeError"

text \<open>Truth value of \<^verbatim>\<open>if v:\<close>. An AST object is always true.\<close>

fun truthy :: "pyval \<Rightarrow> bool" where
  "truthy PNone = False"
| "truthy (PStr s) = (s \<noteq> [])"
| "truthy (PInt i) = (i \<noteq> 0)"
| "truthy (PList xs) = (xs \<noteq> [])"
| "truthy (PNode cls fs pos) = True"

text \<open>
  \<^verbatim>\<open>for x in v\<close>: a list yields its items, a string its characters as
  one-character strings, anything else is not iterable.
\<close>

fun iter :: "pyval \<Rightarrow> error + pyval list" where
  "iter (PList xs) = Inr xs"
| "iter (PStr s) = Inr (map (\<lambda>c. PStr [c]) s)"
| "iter v = Inl TypeError"

text \<open>
  \<^verbatim>\<open>s.split(sep)\<close> for a one-character separator: every separator cuts, so
  the result has one more piece than there are separators in \<open>s\<close>, and pieces
  may be empty.
\<close>

fun split :: "char \<Rightarrow> string \<Rightarrow> string list" where
  "split sep [] = [[]]"
| "split sep (c # cs) =
     (if c = sep then [] # split sep cs
      else (case split sep cs of [] \<Rightarrow> [[c]] | p # ps \<Rightarrow> (c # p) # ps))"

text \<open>\<^verbatim>\<open>v.split(".")\<close>: only a string has the method.\<close>

fun str_split :: "pyval \<Rightarrow> error + string list" where
  "str_split (PStr s) = Inr (split CHR ''.'' s)"
| "str_split v = Inl AttributeError"

text \<open>
  \<^verbatim>\<open>for x in <expr>: body(x)\<close> where evaluating \<open><expr>\<close> gave \<open>src\<close>
  and the body does not call back into the traversal.
\<close>

fun for_each :: "error + pyval \<Rightarrow> (pyval \<Rightarrow> outcome) \<Rightarrow> outcome" where
  "for_each (Inl e) body = raise e"
| "for_each (Inr v) body =
     (case iter v of Inl e \<Rightarrow> raise e | Inr xs \<Rightarrow> seqs (map body xs))"

section \<open>The visitor\<close>

text \<open>
  \<^verbatim>\<open>def _write(self, name, node):
      self.writer.writerow([name, node.lineno, node.col_offset + 1, self.fname])\<close>
\<close>

fun write_row :: "string \<Rightarrow> pyval \<Rightarrow> pyval \<Rightarrow> outcome" where
  "write_row fname nm (PNode cls fs (Some (lineno, col_offset))) =
     ([\<lparr>row_name = nm, row_line = lineno, row_column = col_offset + 1, row_file = fname\<rparr>], None)"
| "write_row fname nm v = raise AttributeError"

text \<open>
  \<^verbatim>\<open>def _visit_keyword(self, node):
      if node.arg:
          self._write(node.arg, node)\<close>
\<close>

definition visit_keyword :: "string \<Rightarrow> pyval \<Rightarrow> outcome" where
  "visit_keyword fname node =
     (case getattr node ''arg'' of
        Inl e \<Rightarrow> raise e
      | Inr a \<Rightarrow> if truthy a then write_row fname a node else ok)"

text \<open>
  The loop shared by \<^verbatim>\<open>visit_ImportFrom\<close> and \<^verbatim>\<open>_visit_alias\<close>:
  \<^verbatim>\<open>for part in dotted.split("."):
      if part:
          self._write(part, node)\<close>
\<close>

definition write_parts :: "string \<Rightarrow> pyval \<Rightarrow> pyval \<Rightarrow> outcome" where
  "write_parts fname dotted node =
     (case str_split dotted of
        Inl e \<Rightarrow> raise e
      | Inr parts \<Rightarrow>
          seqs (map (\<lambda>part. if part \<noteq> [] then write_row fname (PStr part) node else ok) parts))"

text \<open>
  \<^verbatim>\<open>def _visit_alias(self, node):
      if node.name:
          for part in node.name.split("."):
              if part:
                  self._write(part, node)
      if node.asname:
          self._write(node.asname, node)\<close>
\<close>

definition visit_alias :: "string \<Rightarrow> pyval \<Rightarrow> outcome" where
  "visit_alias fname node =
     andthen
       (case getattr node ''name'' of
          Inl e \<Rightarrow> raise e
        | Inr n \<Rightarrow> if truthy n then write_parts fname n node else ok)
       (case getattr node ''asname'' of
          Inl e \<Rightarrow> raise e
        | Inr a \<Rightarrow> if truthy a then write_row fname a node else ok)"

text \<open>
  \<^verbatim>\<open>def _visit_arg(self, arg):
      if not arg:
          return
      self._write(arg.arg, arg)\<close>
\<close>

definition visit_arg :: "string \<Rightarrow> pyval \<Rightarrow> outcome" where
  "visit_arg fname arg =
     (if \<not> truthy arg then ok
      else (case getattr arg ''arg'' of
              Inl e \<Rightarrow> raise e
            | Inr a \<Rightarrow> write_row fname a arg))"

text \<open>
  The \<^verbatim>\<open>visit_<Class>\<close> methods. Each ends (or, for \<^verbatim>\<open>Attribute\<close>, starts)
  with \<^verbatim>\<open>self.generic_visit(node)\<close>; the parameter \<open>gv\<close> is the outcome of
  that call on the same node. For the two function definitions \<open>va\<close> is the
  outcome of \<^verbatim>\<open>self._visit_arguments(node.args)\<close>.
\<close>

definition visit_Name :: "string \<Rightarrow> pyval \<Rightarrow> outcome \<Rightarrow> outcome" where
  "visit_Name fname node gv =
     andthen
       (case getattr node ''id'' of Inl e \<Rightarrow> raise e | Inr i \<Rightarrow> write_row fname i node)
       gv"

definition visit_Call :: "string \<Rightarrow> pyval \<Rightarrow> outcome \<Rightarrow> outcome" where
  "visit_Call fname node gv =
     andthen (for_each (getattr node ''keywords'') (visit_keyword fname)) gv"

definition visit_Attribute :: "string \<Rightarrow> pyval \<Rightarrow> outcome \<Rightarrow> outcome" where
  "visit_Attribute fname node gv =
     andthen gv
       (case getattr node ''attr'' of Inl e \<Rightarrow> raise e | Inr a \<Rightarrow> write_row fname a node)"

definition visit_Import :: "string \<Rightarrow> pyval \<Rightarrow> outcome \<Rightarrow> outcome" where
  "visit_Import fname node gv =
     andthen (for_each (getattr node ''names'') (visit_alias fname)) gv"

definition visit_ImportFrom :: "string \<Rightarrow> pyval \<Rightarrow> outcome \<Rightarrow> outcome" where
  "visit_ImportFrom fname node gv =
     andthen
       (case getattr node ''module'' of
          Inl e \<Rightarrow> raise e
        | Inr m \<Rightarrow> if truthy m then write_parts fname m node else ok)
       (andthen (for_each (getattr node ''names'') (visit_alias fname)) gv)"

definition visit_MatchAs :: "string \<Rightarrow> pyval \<Rightarrow> outcome \<Rightarrow> outcome" where
  "visit_MatchAs fname node gv =
     andthen
       (case getattr node ''name'' of Inl e \<Rightarrow> raise e | Inr n \<Rightarrow> write_row fname n node)
       gv"

definition visit_FunctionDef :: "string \<Rightarrow> pyval \<Rightarrow> outcome \<Rightarrow> outcome \<Rightarrow> outcome" where
  "visit_FunctionDef fname node va gv =
     andthen
       (case getattr node ''name'' of Inl e \<Rightarrow> raise e | Inr n \<Rightarrow> write_row fname n node)
       (andthen va gv)"

definition visit_Global :: "string \<Rightarrow> pyval \<Rightarrow> outcome \<Rightarrow> outcome" where
  "visit_Global fname node gv =
     andthen (for_each (getattr node ''names'') (\<lambda>n. write_row fname n node)) gv"

definition visit_Nonlocal :: "string \<Rightarrow> pyval \<Rightarrow> outcome \<Rightarrow> outcome" where
  "visit_Nonlocal fname node gv =
     andthen (for_each (getattr node ''names'') (\<lambda>n. write_row fname n node)) gv"

definition visit_ClassDef :: "string \<Rightarrow> pyval \<Rightarrow> outcome \<Rightarrow> outcome" where
  "visit_ClassDef fname node gv =
     andthen
       (case getattr node ''name'' of Inl e \<Rightarrow> raise e | Inr n \<Rightarrow> write_row fname n node)
       (andthen (for_each (getattr node ''keywords'') (visit_keyword fname)) gv)"

definition visit_AsyncFunctionDef :: "string \<Rightarrow> pyval \<Rightarrow> outcome \<Rightarrow> outcome \<Rightarrow> outcome" where
  "visit_AsyncFunctionDef fname node va gv =
     andthen
       (case getattr node ''name'' of Inl e \<Rightarrow> raise e | Inr n \<Rightarrow> write_row fname n node)
       (andthen va gv)"

text \<open>
  \<^verbatim>\<open>Visitor\<close> inherits one more method from \<^verbatim>\<open>ast.NodeVisitor\<close> (up to
  Python 3.13): \<^verbatim>\<open>visit_Constant\<close>. It reads \<^verbatim>\<open>node.value\<close>, looks on the
  visitor for one of the old method names \<^verbatim>\<open>visit_Num\<close>, \<^verbatim>\<open>visit_Str\<close>,
  \<^verbatim>\<open>visit_Bytes\<close>, \<^verbatim>\<open>visit_NameConstant\<close>, \<^verbatim>\<open>visit_Ellipsis\<close>, of which
  \<^verbatim>\<open>Visitor\<close> has none, and returns \<^verbatim>\<open>self.generic_visit(node)\<close>.
\<close>

definition visit_Constant :: "string \<Rightarrow> pyval \<Rightarrow> outcome \<Rightarrow> outcome" where
  "visit_Constant fname node gv =
     (case getattr node ''value'' of Inl e \<Rightarrow> raise e | Inr v \<Rightarrow> gv)"

subsection \<open>Dispatch, the generic traversal and the parameter list\<close>

lemma getattr_size: "getattr n f = Inr v \<Longrightarrow> size v < size n"
proof (cases n)
  case (PNode cls fs pos)
  assume "getattr n f = Inr v"
  with PNode have "(f, v) \<in> set fs \<or> v = PNone"
    by (auto split: option.splits if_splits dest: map_of_SomeD)
  then have "size v < Suc (size_list (size_prod (\<lambda>_. 0) size) fs)"
    by (induction fs) auto
  with PNode show ?thesis by simp
qed simp_all

lemma iter_size: "iter v = Inr xs \<Longrightarrow> x \<in> set xs \<Longrightarrow> size x \<le> size v"
proof (cases v)
  case (PList ys)
  assume "iter v = Inr xs" "x \<in> set xs"
  with PList have "x \<in> set ys" by simp
  then have "size x \<le> size_list size ys"
    by (induction ys) auto
  with PList show ?thesis by simp
qed auto

lemma field_size: "(f, v) \<in> set fs \<Longrightarrow> size v < size (PNode cls fs pos)"
proof -
  assume "(f, v) \<in> set fs"
  then have "size v < Suc (size_list (size_prod (\<lambda>_. 0) size) fs)"
    by (induction fs) auto
  then show ?thesis by simp
qed

lemma item_size: "x \<in> set xs \<Longrightarrow> size x < size (PList xs)"
proof -
  assume "x \<in> set xs"
  then have "size x < Suc (size_list size xs)"
    by (induction xs) auto
  then show ?thesis by simp
qed

lemma field_item_size:
  "(f, PList xs) \<in> set fs \<Longrightarrow> x \<in> set xs \<Longrightarrow> size x < size (PNode cls fs pos)"
  using field_size [of f "PList xs" fs cls pos] item_size [of x xs] by linarith

lemma default_size:
  "getattr a f = Inr ds \<Longrightarrow> iter ds = Inr xs \<Longrightarrow> x \<in> set xs \<Longrightarrow> size x < size a"
  using getattr_size [of a f ds] iter_size [of ds xs x] by linarith

lemma field_item_measure:
  "(f, PList xs) \<in> set fs \<Longrightarrow> x \<in> set xs \<Longrightarrow> Suc (3 * size x) < 3 * size (PNode cls fs pos)"
  using field_item_size [of f xs fs x cls pos] by linarith

lemma field_measure:
  "(f, v) \<in> set fs \<Longrightarrow> Suc (3 * size v) < 3 * size (PNode cls fs pos)"
  using field_size [of f v fs cls pos] by linarith

text \<open>
  \<^verbatim>\<open>ast.NodeVisitor.visit\<close> calls the method \<^verbatim>\<open>visit_<class name>\<close> when the
  visitor has one (the eleven of \<^verbatim>\<open>Visitor\<close> and the inherited
  \<^verbatim>\<open>visit_Constant\<close>) and \<^verbatim>\<open>generic_visit\<close> otherwise.
  \<^verbatim>\<open>generic_visit\<close> goes through \<^verbatim>\<open>ast.iter_fields(node)\<close>: every item of a
  list field that is an AST is visited, and every field that is an AST is visited.
  Reading \<^verbatim>\<open>_fields\<close> of a value that is not an AST raises.

  \<^verbatim>\<open>def _visit_arguments(self, args):
      for arg in args.posonlyargs:
          self._visit_arg(arg)
      for arg in args.args:
          self._visit_arg(arg)
      self._visit_arg(args.vararg)
      for default in args.defaults:
          if default is not None:
              self.visit(default)
      for arg in args.kwonlyargs:
          self._visit_arg(arg)
      for default in args.kw_defaults:
          if default is not None:
              self.visit(default)
      self._visit_arg(args.kwarg)\<close>
\<close>

function visit :: "string \<Rightarrow> pyval \<Rightarrow> outcome"
  and generic_visit :: "string \<Rightarrow> pyval \<Rightarrow> outcome"
  and visit_arguments :: "string \<Rightarrow> pyval \<Rightarrow> outcome"
where
  "visit fname (PNode cls fs pos) =
     (if cls = ''Name'' then
        visit_Name fname (PNode cls fs pos) (generic_visit fname (PNode cls fs pos))
      else if cls = ''Call'' then
        visit_Call fname (PNode cls fs pos) (generic_visit fname (PNode cls fs pos))
      else if cls = ''Attribute'' then
        visit_Attribute fname (PNode cls fs pos) (generic_visit fname (PNode cls fs pos))
      else if cls = ''Import'' then
        visit_Import fname (PNode cls fs pos) (generic_visit fname (PNode cls fs pos))
      else if cls = ''ImportFrom'' then
        visit_ImportFrom fname (PNode cls fs pos) (generic_visit fname (PNode cls fs pos))
      else if cls = ''MatchAs'' then
        visit_MatchAs fname (PNode cls fs pos) (generic_visit fname (PNode cls fs pos))
      else if cls = ''FunctionDef'' then
        visit_FunctionDef fname (PNode cls fs pos)
          (case getattr (PNode cls fs pos) ''args'' of
             Inl e \<Rightarrow> raise e
           | Inr a \<Rightarrow> visit_arguments fname a)
          (generic_visit fname (PNode cls fs pos))
      else if cls = ''Global'' then
        visit_Global fname (PNode cls fs pos) (generic_visit fname (PNode cls fs pos))
      else if cls = ''Nonlocal'' then
        visit_Nonlocal fname (PNode cls fs pos) (generic_visit fname (PNode cls fs pos))
      else if cls = ''ClassDef'' then
        visit_ClassDef fname (PNode cls fs pos) (generic_visit fname (PNode cls fs pos))
      else if cls = ''AsyncFunctionDef'' then
        visit_AsyncFunctionDef fname (PNode cls fs pos)
          (case getattr (PNode cls fs pos) ''args'' of
             Inl e \<Rightarrow> raise e
           | Inr a \<Rightarrow> visit_arguments fname a)
          (generic_visit fname (PNode cls fs pos))
      else if cls = ''Constant'' then
        visit_Constant fname (PNode cls fs pos) (generic_visit fname (PNode cls fs pos))
      else generic_visit fname (PNode cls fs pos))"
| "visit fname PNone = raise AttributeError"
| "visit fname (PStr s) = raise AttributeError"
| "visit fname (PInt i) = raise AttributeError"
| "visit fname (PList xs) = raise AttributeError"
| "generic_visit fname (PNode cls fs pos) =
     seqs (map (\<lambda>(field, v).
             case v of
               PList items \<Rightarrow>
                 seqs (map (\<lambda>item. if is_AST item then visit fname item else ok) items)
             | _ \<Rightarrow> if is_AST v then visit fname v else ok) fs)"
| "generic_visit fname PNone = raise AttributeError"
| "generic_visit fname (PStr s) = raise AttributeError"
| "generic_visit fname (PInt i) = raise AttributeError"
| "generic_visit fname (PList xs) = raise AttributeError"
| "visit_arguments fname args =
     andthen (for_each (getattr args ''posonlyargs'') (visit_arg fname))
    (andthen (for_each (getattr args ''args'') (visit_arg fname))
    (andthen (case getattr args ''vararg'' of
                Inl e \<Rightarrow> raise e
              | Inr a \<Rightarrow> visit_arg fname a)
    (andthen (case getattr args ''defaults'' of
                Inl e \<Rightarrow> raise e
              | Inr ds \<Rightarrow>
                 (case iter ds of
                    Inl e \<Rightarrow> raise e
                  | Inr xs \<Rightarrow>
                      seqs (map (\<lambda>default. if default \<noteq> PNone then visit fname default
                                            else ok) xs)))
    (andthen (for_each (getattr args ''kwonlyargs'') (visit_arg fname))
    (andthen (case getattr args ''kw_defaults'' of
                Inl e \<Rightarrow> raise e
              | Inr ds \<Rightarrow>
                 (case iter ds of
                    Inl e \<Rightarrow> raise e
                  | Inr xs \<Rightarrow>
                      seqs (map (\<lambda>default. if default \<noteq> PNone then visit fname default
                                            else ok) xs)))
             (case getattr args ''kwarg'' of
                Inl e \<Rightarrow> raise e
              | Inr a \<Rightarrow> visit_arg fname a))))))"
  by pat_completeness auto


termination
  apply (relation "measure (\<lambda>x. case x of
          Inl (fname, n) \<Rightarrow> 3 * size n + 2
        | Inr (Inl (fname, n)) \<Rightarrow> 3 * size n + 1
        | Inr (Inr (fname, a)) \<Rightarrow> 3 * size a + 2)")
  apply (auto simp del: pyval.size getattr.simps iter.simps
              dest: getattr_size default_size
              intro: field_item_measure field_measure)
  done


section \<open>The visitor on a bounded call stack\<close>

text \<open>
  The functions above describe the traversal on a call stack that never runs out. Python
  bounds the stack: every call of a Python function takes a frame, and a call made when
  no frame is left raises \<^verbatim>\<open>RecursionError\<close> instead of running. The script
  neither raises the limit nor catches the error. The frames in question are those of the
  methods of \<^verbatim>\<open>Visitor\<close> and \<^verbatim>\<open>ast.NodeVisitor\<close> and of the generator
  \<^verbatim>\<open>ast.iter_fields\<close>, which \<^verbatim>\<open>generic_visit\<close> resumes once before its first
  field; attribute access, \<^verbatim>\<open>isinstance\<close> and \<^verbatim>\<open>str.split\<close> are built in and
  take none. \<^verbatim>\<open>writer.writerow\<close> is built in too, but what it calls to turn the
  row into text and to hand it to the output counts against the limit on some
  interpreters: none on Python 3.12 and later, two levels on Python 3.11 with a string as
  file name, more when the file name is a \<^verbatim>\<open>pathlib.Path\<close>. That number is the same
  for every row of a run and is the parameter \<open>sink\<close> of the functions below.

  The second argument is the number of frames still free when the call is made. A method
  body that runs with \<open>d\<close> free frames makes its own calls with \<open>d\<close>; the callee
  then runs its body with one frame fewer.
\<close>

text \<open>
  \<^verbatim>\<open>_write\<close> takes a frame; it reads the position of the node and calls
  \<^verbatim>\<open>writer.writerow\<close>, which needs \<open>sink\<close> further levels and writes
  nothing when it does not get them.
\<close>

fun write_lim :: "nat \<Rightarrow> nat \<Rightarrow> string \<Rightarrow> pyval \<Rightarrow> pyval \<Rightarrow> outcome" where
  "write_lim sink 0 fname nm node = raise RecursionError"
| "write_lim sink (Suc d) fname nm (PNode cls fs (Some (lineno, col_offset))) =
     (if d < sink then raise RecursionError
      else write_row fname nm (PNode cls fs (Some (lineno, col_offset))))"
| "write_lim sink (Suc d) fname nm v = raise AttributeError"

fun visit_keyword_lim :: "nat \<Rightarrow> nat \<Rightarrow> string \<Rightarrow> pyval \<Rightarrow> outcome" where
  "visit_keyword_lim sink 0 fname node = raise RecursionError"
| "visit_keyword_lim sink (Suc d) fname node =
     (case getattr node ''arg'' of
        Inl e \<Rightarrow> raise e
      | Inr a \<Rightarrow> if truthy a then write_lim sink d fname a node else ok)"

text \<open>The loop over the dotted parts is inline code: \<open>d\<close> is what the enclosing method has left.\<close>

definition write_parts_lim :: "nat \<Rightarrow> nat \<Rightarrow> string \<Rightarrow> pyval \<Rightarrow> pyval \<Rightarrow> outcome" where
  "write_parts_lim sink d fname dotted node =
     (case str_split dotted of
        Inl e \<Rightarrow> raise e
      | Inr parts \<Rightarrow>
          seqs (map (\<lambda>part. if part \<noteq> [] then write_lim sink d fname (PStr part) node else ok)
                  parts))"

fun visit_alias_lim :: "nat \<Rightarrow> nat \<Rightarrow> string \<Rightarrow> pyval \<Rightarrow> outcome" where
  "visit_alias_lim sink 0 fname node = raise RecursionError"
| "visit_alias_lim sink (Suc d) fname node =
     andthen
       (case getattr node ''name'' of
          Inl e \<Rightarrow> raise e
        | Inr n \<Rightarrow> if truthy n then write_parts_lim sink d fname n node else ok)
       (case getattr node ''asname'' of
          Inl e \<Rightarrow> raise e
        | Inr a \<Rightarrow> if truthy a then write_lim sink d fname a node else ok)"

fun visit_arg_lim :: "nat \<Rightarrow> nat \<Rightarrow> string \<Rightarrow> pyval \<Rightarrow> outcome" where
  "visit_arg_lim sink 0 fname arg = raise RecursionError"
| "visit_arg_lim sink (Suc d) fname arg =
     (if \<not> truthy arg then ok
      else (case getattr arg ''arg'' of
              Inl e \<Rightarrow> raise e
            | Inr a \<Rightarrow> write_lim sink d fname a arg))"

text \<open>
  The \<^verbatim>\<open>visit_<Class>\<close> methods. As before \<open>gv\<close> and \<open>va\<close> are the
  outcomes of the calls \<^verbatim>\<open>self.generic_visit(node)\<close> and
  \<^verbatim>\<open>self._visit_arguments(node.args)\<close> that the body makes.
\<close>

fun visit_Name_lim :: "nat \<Rightarrow> nat \<Rightarrow> string \<Rightarrow> pyval \<Rightarrow> outcome \<Rightarrow> outcome" where
  "visit_Name_lim sink 0 fname node gv = raise RecursionError"
| "visit_Name_lim sink (Suc d) fname node gv =
     andthen
       (case getattr node ''id'' of Inl e \<Rightarrow> raise e | Inr i \<Rightarrow> write_lim sink d fname i node)
       gv"

fun visit_Call_lim :: "nat \<Rightarrow> nat \<Rightarrow> string \<Rightarrow> pyval \<Rightarrow> outcome \<Rightarrow> outcome" where
  "visit_Call_lim sink 0 fname node gv = raise RecursionError"
| "visit_Call_lim sink (Suc d) fname node gv =
     andthen (for_each (getattr node ''keywords'') (visit_keyword_lim sink d fname)) gv"

fun visit_Attribute_lim :: "nat \<Rightarrow> nat \<Rightarrow> string \<Rightarrow> pyval \<Rightarrow> outcome \<Rightarrow> outcome" where
  "visit_Attribute_lim sink 0 fname node gv = raise RecursionError"
| "visit_Attribute_lim sink (Suc d) fname node gv =
     andthen gv
       (case getattr node ''attr'' of Inl e \<Rightarrow> raise e | Inr a \<Rightarrow> write_lim sink d fname a node)"

fun visit_Import_lim :: "nat \<Rightarrow> nat \<Rightarrow> string \<Rightarrow> pyval \<Rightarrow> outcome \<Rightarrow> outcome" where
  "visit_Import_lim sink 0 fname node gv = raise RecursionError"
| "visit_Import_lim sink (Suc d) fname node gv =
     andthen (for_each (getattr node ''names'') (visit_alias_lim sink d fname)) gv"

fun visit_ImportFrom_lim :: "nat \<Rightarrow> nat \<Rightarrow> string \<Rightarrow> pyval \<Rightarrow> outcome \<Rightarrow> outcome" where
  "visit_ImportFrom_lim sink 0 fname node gv = raise RecursionError"
| "visit_ImportFrom_lim sink (Suc d) fname node gv =
     andthen
       (case getattr node ''module'' of
          Inl e \<Rightarrow> raise e
        | Inr m \<Rightarrow> if truthy m then write_parts_lim sink d fname m node else ok)
       (andthen (for_each (getattr node ''names'') (visit_alias_lim sink d fname)) gv)"

fun visit_MatchAs_lim :: "nat \<Rightarrow> nat \<Rightarrow> string \<Rightarrow> pyval \<Rightarrow> outcome \<Rightarrow> outcome" where
  "visit_MatchAs_lim sink 0 fname node gv = raise RecursionError"
| "visit_MatchAs_lim sink (Suc d) fname node gv =
     andthen
       (case getattr node ''name'' of Inl e \<Rightarrow> raise e | Inr n \<Rightarrow> write_lim sink d fname n node)
       gv"

fun visit_FunctionDef_lim :: "nat \<Rightarrow> nat \<Rightarrow> string \<Rightarrow> pyval \<Rightarrow> outcome \<Rightarrow> outcome \<Rightarrow> outcome" where
  "visit_FunctionDef_lim sink 0 fname node va gv = raise RecursionError"
| "visit_FunctionDef_lim sink (Suc d) fname node va gv =
     andthen
       (case getattr node ''name'' of Inl e \<Rightarrow> raise e | Inr n \<Rightarrow> write_lim sink d fname n node)
       (andthen va gv)"

fun visit_Global_lim :: "nat \<Rightarrow> nat \<Rightarrow> string \<Rightarrow> pyval \<Rightarrow> outcome \<Rightarrow> outcome" where
  "visit_Global_lim sink 0 fname node gv = raise RecursionError"
| "visit_Global_lim sink (Suc d) fname node gv =
     andthen (for_each (getattr node ''names'') (\<lambda>n. write_lim sink d fname n node)) gv"

fun visit_Nonlocal_lim :: "nat \<Rightarrow> nat \<Rightarrow> string \<Rightarrow> pyval \<Rightarrow> outcome \<Rightarrow> outcome" where
  "visit_Nonlocal_lim sink 0 fname node gv = raise RecursionError"
| "visit_Nonlocal_lim sink (Suc d) fname node gv =
     andthen (for_each (getattr node ''names'') (\<lambda>n. write_lim sink d fname n node)) gv"

fun visit_ClassDef_lim :: "nat \<Rightarrow> nat \<Rightarrow> string \<Rightarrow> pyval \<Rightarrow> outcome \<Rightarrow> outcome" where
  "visit_ClassDef_lim sink 0 fname node gv = raise RecursionError"
| "visit_ClassDef_lim sink (Suc d) fname node gv =
     andthen
       (case getattr node ''name'' of Inl e \<Rightarrow> raise e | Inr n \<Rightarrow> write_lim sink d fname n node)
       (andthen (for_each (getattr node ''keywords'') (visit_keyword_lim sink d fname)) gv)"

fun visit_AsyncFunctionDef_lim ::
  "nat \<Rightarrow> nat \<Rightarrow> string \<Rightarrow> pyval \<Rightarrow> outcome \<Rightarrow> outcome \<Rightarrow> outcome"
where
  "visit_AsyncFunctionDef_lim sink 0 fname node va gv = raise RecursionError"
| "visit_AsyncFunctionDef_lim sink (Suc d) fname node va gv =
     andthen
       (case getattr node ''name'' of Inl e \<Rightarrow> raise e | Inr n \<Rightarrow> write_lim sink d fname n node)
       (andthen va gv)"

fun visit_Constant_lim :: "nat \<Rightarrow> nat \<Rightarrow> string \<Rightarrow> pyval \<Rightarrow> outcome \<Rightarrow> outcome" where
  "visit_Constant_lim sink 0 fname node gv = raise RecursionError"
| "visit_Constant_lim sink (Suc d) fname node gv =
     (case getattr node ''value'' of Inl e \<Rightarrow> raise e | Inr v \<Rightarrow> gv)"

text \<open>
  \<^verbatim>\<open>visit\<close> runs with \<open>d\<close> frames left after its own and calls the method it
  found with them; the method's body has \<open>d - 1\<close> left for the calls it makes.
  \<^verbatim>\<open>generic_visit\<close> needs one frame beside its own to resume
  \<^verbatim>\<open>iter_fields\<close>, which is also where \<^verbatim>\<open>_fields\<close> of a value that is not a
  node is read; the children are visited with what \<^verbatim>\<open>generic_visit\<close> has left.
\<close>

function (sequential) visit_lim :: "nat \<Rightarrow> nat \<Rightarrow> string \<Rightarrow> pyval \<Rightarrow> outcome"
  and generic_visit_lim :: "nat \<Rightarrow> nat \<Rightarrow> string \<Rightarrow> pyval \<Rightarrow> outcome"
  and visit_arguments_lim :: "nat \<Rightarrow> nat \<Rightarrow> string \<Rightarrow> pyval \<Rightarrow> outcome"
where
  "visit_lim sink 0 fname node = raise RecursionError"
| "visit_lim sink (Suc d) fname (PNode cls fs pos) =
     (if cls = ''Name'' then
        visit_Name_lim sink d fname (PNode cls fs pos)
          (generic_visit_lim sink (d - 1) fname (PNode cls fs pos))
      else if cls = ''Call'' then
        visit_Call_lim sink d fname (PNode cls fs pos)
          (generic_visit_lim sink (d - 1) fname (PNode cls fs pos))
      else if cls = ''Attribute'' then
        visit_Attribute_lim sink d fname (PNode cls fs pos)
          (generic_visit_lim sink (d - 1) fname (PNode cls fs pos))
      else if cls = ''Import'' then
        visit_Import_lim sink d fname (PNode cls fs pos)
          (generic_visit_lim sink (d - 1) fname (PNode cls fs pos))
      else if cls = ''ImportFrom'' then
        visit_ImportFrom_lim sink d fname (PNode cls fs pos)
          (generic_visit_lim sink (d - 1) fname (PNode cls fs pos))
      else if cls = ''MatchAs'' then
        visit_MatchAs_lim sink d fname (PNode cls fs pos)
          (generic_visit_lim sink (d - 1) fname (PNode cls fs pos))
      else if cls = ''FunctionDef'' then
        visit_FunctionDef_lim sink d fname (PNode cls fs pos)
          (case getattr (PNode cls fs pos) ''args'' of
             Inl e \<Rightarrow> raise e
           | Inr a \<Rightarrow> visit_arguments_lim sink (d - 1) fname a)
          (generic_visit_lim sink (d - 1) fname (PNode cls fs pos))
      else if cls = ''Global'' then
        visit_Global_lim sink d fname (PNode cls fs pos)
          (generic_visit_lim sink (d - 1) fname (PNode cls fs pos))
      else if cls = ''Nonlocal'' then
        visit_Nonlocal_lim sink d fname (PNode cls fs pos)
          (generic_visit_lim sink (d - 1) fname (PNode cls fs pos))
      else if cls = ''ClassDef'' then
        visit_ClassDef_lim sink d fname (PNode cls fs pos)
          (generic_visit_lim sink (d - 1) fname (PNode cls fs pos))
      else if cls = ''AsyncFunctionDef'' then
        visit_AsyncFunctionDef_lim sink d fname (PNode cls fs pos)
          (case getattr (PNode cls fs pos) ''args'' of
             Inl e \<Rightarrow> raise e
           | Inr a \<Rightarrow> visit_arguments_lim sink (d - 1) fname a)
          (generic_visit_lim sink (d - 1) fname (PNode cls fs pos))
      else if cls = ''Constant'' then
        visit_Constant_lim sink d fname (PNode cls fs pos)
          (generic_visit_lim sink (d - 1) fname (PNode cls fs pos))
      else generic_visit_lim sink d fname (PNode cls fs pos))"
| "visit_lim sink (Suc d) fname v = generic_visit_lim sink d fname v"
| "generic_visit_lim sink 0 fname node = raise RecursionError"
| "generic_visit_lim sink (Suc 0) fname node = raise RecursionError"
| "generic_visit_lim sink (Suc (Suc d)) fname (PNode cls fs pos) =
     seqs (map (\<lambda>(field, v).
             case v of
               PList items \<Rightarrow>
                 seqs (map (\<lambda>item. if is_AST item then visit_lim sink (Suc d) fname item else ok)
                         items)
             | _ \<Rightarrow> if is_AST v then visit_lim sink (Suc d) fname v else ok) fs)"
| "generic_visit_lim sink (Suc (Suc d)) fname v = raise AttributeError"
| "visit_arguments_lim sink 0 fname args = raise RecursionError"
| "visit_arguments_lim sink (Suc d) fname args =
     andthen (for_each (getattr args ''posonlyargs'') (visit_arg_lim sink d fname))
    (andthen (for_each (getattr args ''args'') (visit_arg_lim sink d fname))
    (andthen (case getattr args ''vararg'' of
                Inl e \<Rightarrow> raise e
              | Inr a \<Rightarrow> visit_arg_lim sink d fname a)
    (andthen (case getattr args ''defaults'' of
                Inl e \<Rightarrow> raise e
              | Inr ds \<Rightarrow>
                 (case iter ds of
                    Inl e \<Rightarrow> raise e
                  | Inr xs \<Rightarrow>
                      seqs (map (\<lambda>default. if default \<noteq> PNone then visit_lim sink d fname default
                                            else ok) xs)))
    (andthen (for_each (getattr args ''kwonlyargs'') (visit_arg_lim sink d fname))
    (andthen (case getattr args ''kw_defaults'' of
                Inl e \<Rightarrow> raise e
              | Inr ds \<Rightarrow>
                 (case iter ds of
                    Inl e \<Rightarrow> raise e
                  | Inr xs \<Rightarrow>
                      seqs (map (\<lambda>default. if default \<noteq> PNone then visit_lim sink d fname default
                                            else ok) xs)))
             (case getattr args ''kwarg'' of
                Inl e \<Rightarrow> raise e
              | Inr a \<Rightarrow> visit_arg_lim sink d fname a))))))"
  by pat_completeness auto

termination
  by (relation "measure (\<lambda>x. case x of
          Inl (sink, d, fname, n) \<Rightarrow> d
        | Inr (Inl (sink, d, fname, n)) \<Rightarrow> d
        | Inr (Inr (sink, d, fname, a)) \<Rightarrow> d)") auto

section \<open>Trees as the parser builds them\<close>

text \<open>
  The trees the driver passes in come from \<^verbatim>\<open>ast.parse\<close>. The constructors below
  build nodes with the field order CPython's \<^verbatim>\<open>ast\<close> module declares in
  \<^verbatim>\<open>_fields\<close> (Python 3.12). Statements, expressions, patterns, \<^verbatim>\<open>arg\<close>,
  \<^verbatim>\<open>keyword\<close> and \<^verbatim>\<open>alias\<close> nodes carry a position
  \<^verbatim>\<open>(lineno, col_offset)\<close>; \<^verbatim>\<open>Module\<close>, \<^verbatim>\<open>arguments\<close>,
  \<^verbatim>\<open>match_case\<close> and the expression contexts do not.
\<close>

definition ast_Load :: pyval where
  "ast_Load = PNode ''Load'' [] None"

definition ast_Name :: "string \<Rightarrow> int \<times> int \<Rightarrow> pyval" where
  "ast_Name i p = PNode ''Name'' [(''id'', PStr i), (''ctx'', ast_Load)] (Some p)"

definition ast_Constant :: "pyval \<Rightarrow> int \<times> int \<Rightarrow> pyval" where
  "ast_Constant v p = PNode ''Constant'' [(''value'', v), (''kind'', PNone)] (Some p)"

definition ast_Attribute :: "pyval \<Rightarrow> string \<Rightarrow> int \<times> int \<Rightarrow> pyval" where
  "ast_Attribute v a p =
     PNode ''Attribute'' [(''value'', v), (''attr'', PStr a), (''ctx'', ast_Load)] (Some p)"

definition ast_keyword :: "pyval \<Rightarrow> pyval \<Rightarrow> int \<times> int \<Rightarrow> pyval" where
  "ast_keyword a v p = PNode ''keyword'' [(''arg'', a), (''value'', v)] (Some p)"

definition ast_Call :: "pyval \<Rightarrow> pyval list \<Rightarrow> pyval list \<Rightarrow> int \<times> int \<Rightarrow> pyval" where
  "ast_Call f as ks p =
     PNode ''Call'' [(''func'', f), (''args'', PList as), (''keywords'', PList ks)] (Some p)"

definition ast_alias :: "string \<Rightarrow> pyval \<Rightarrow> int \<times> int \<Rightarrow> pyval" where
  "ast_alias n a p = PNode ''alias'' [(''name'', PStr n), (''asname'', a)] (Some p)"

definition ast_Import :: "pyval list \<Rightarrow> int \<times> int \<Rightarrow> pyval" where
  "ast_Import ns p = PNode ''Import'' [(''names'', PList ns)] (Some p)"

definition ast_arg :: "string \<Rightarrow> pyval \<Rightarrow> int \<times> int \<Rightarrow> pyval" where
  "ast_arg n ann p =
     PNode ''arg'' [(''arg'', PStr n), (''annotation'', ann), (''type_comment'', PNone)] (Some p)"

definition ast_arguments ::
  "pyval list \<Rightarrow> pyval list \<Rightarrow> pyval \<Rightarrow> pyval list \<Rightarrow> pyval list \<Rightarrow> pyval \<Rightarrow> pyval list \<Rightarrow> pyval"
where
  "ast_arguments posonlyargs args vararg kwonlyargs kw_defaults kwarg defaults =
     PNode ''arguments''
       [(''posonlyargs'', PList posonlyargs), (''args'', PList args), (''vararg'', vararg),
        (''kwonlyargs'', PList kwonlyargs), (''kw_defaults'', PList kw_defaults),
        (''kwarg'', kwarg), (''defaults'', PList defaults)] None"

definition ast_FunctionDef ::
  "string \<Rightarrow> pyval \<Rightarrow> pyval list \<Rightarrow> pyval list \<Rightarrow> pyval \<Rightarrow> int \<times> int \<Rightarrow> pyval"
where
  "ast_FunctionDef n args body decorator_list returns p =
     PNode ''FunctionDef''
       [(''name'', PStr n), (''args'', args), (''body'', PList body),
        (''decorator_list'', PList decorator_list), (''returns'', returns),
        (''type_comment'', PNone), (''type_params'', PList [])] (Some p)"

definition ast_AsyncFunctionDef ::
  "string \<Rightarrow> pyval \<Rightarrow> pyval list \<Rightarrow> pyval list \<Rightarrow> pyval \<Rightarrow> int \<times> int \<Rightarrow> pyval"
where
  "ast_AsyncFunctionDef n args body decorator_list returns p =
     PNode ''AsyncFunctionDef''
       [(''name'', PStr n), (''args'', args), (''body'', PList body),
        (''decorator_list'', PList decorator_list), (''returns'', returns),
        (''type_comment'', PNone), (''type_params'', PList [])] (Some p)"

text \<open>
  An attribute access is parsed with the context it stands in: \<^verbatim>\<open>Load\<close> when it is
  read, \<^verbatim>\<open>Store\<close> when it is assigned to, \<^verbatim>\<open>Del\<close> when it is deleted.
\<close>

datatype expr_context = Load | Store | Del

fun ast_context :: "expr_context \<Rightarrow> pyval" where
  "ast_context Load = PNode ''Load'' [] None"
| "ast_context Store = PNode ''Store'' [] None"
| "ast_context Del = PNode ''Del'' [] None"

definition ast_Attribute_ctx :: "pyval \<Rightarrow> string \<Rightarrow> expr_context \<Rightarrow> int \<times> int \<Rightarrow> pyval" where
  "ast_Attribute_ctx v a ctx p =
     PNode ''Attribute'' [(''value'', v), (''attr'', PStr a), (''ctx'', ast_context ctx)] (Some p)"

definition ast_Expr :: "pyval \<Rightarrow> int \<times> int \<Rightarrow> pyval" where
  "ast_Expr v p = PNode ''Expr'' [(''value'', v)] (Some p)"

definition ast_Return :: "pyval \<Rightarrow> int \<times> int \<Rightarrow> pyval" where
  "ast_Return v p = PNode ''Return'' [(''value'', v)] (Some p)"

definition ast_Pass :: "int \<times> int \<Rightarrow> pyval" where
  "ast_Pass p = PNode ''Pass'' [] (Some p)"

definition ast_MatchAs :: "pyval \<Rightarrow> pyval \<Rightarrow> int \<times> int \<Rightarrow> pyval" where
  "ast_MatchAs pat n p = PNode ''MatchAs'' [(''pattern'', pat), (''name'', n)] (Some p)"

definition ast_match_case :: "pyval \<Rightarrow> pyval \<Rightarrow> pyval list \<Rightarrow> pyval" where
  "ast_match_case pat guard body =
     PNode ''match_case'' [(''pattern'', pat), (''guard'', guard), (''body'', PList body)] None"

definition ast_Match :: "pyval \<Rightarrow> pyval list \<Rightarrow> int \<times> int \<Rightarrow> pyval" where
  "ast_Match subject cases p =
     PNode ''Match'' [(''subject'', subject), (''cases'', PList cases)] (Some p)"

definition ast_Module :: "pyval list \<Rightarrow> pyval" where
  "ast_Module body = PNode ''Module'' [(''body'', PList body), (''type_ignores'', PList [])] None"

text \<open>
  \<^verbatim>\<open>def f(x, y=1):
      return obj.attr\<close>
\<close>

definition example_unit :: pyval where
  "example_unit =
     ast_Module
       [ast_FunctionDef ''f''
          (ast_arguments [] [ast_arg ''x'' PNone (1, 6), ast_arg ''y'' PNone (1, 9)] PNone
             [] [] PNone [ast_Constant (PInt 1) (1, 11)])
          [ast_Return (ast_Attribute (ast_Name ''obj'' (2, 11)) ''attr'' (2, 11)) (2, 4)]
          [] PNone (1, 0)]"

text \<open>\<^verbatim>\<open>def f(x=y): pass\<close>\<close>

definition default_unit :: pyval where
  "default_unit =
     ast_Module
       [ast_FunctionDef ''f''
          (ast_arguments [] [ast_arg ''x'' PNone (1, 6)] PNone [] [] PNone
             [ast_Name ''y'' (1, 8)])
          [ast_Pass (1, 12)] [] PNone (1, 0)]"

text \<open>
  \<^verbatim>\<open>match x:
      case _:
          pass\<close>
  The wildcard pattern is \<^verbatim>\<open>MatchAs(pattern=None, name=None)\<close>.
\<close>

definition wildcard_unit :: pyval where
  "wildcard_unit =
     ast_Module
       [ast_Match (ast_Name ''x'' (1, 6))
          [ast_match_case (ast_MatchAs PNone PNone (2, 9)) PNone [ast_Pass (3, 8)]]
          (1, 0)]"

text \<open>
  The unit that consists of \<open>k\<close> minus signs followed by \<^verbatim>\<open>x\<close>, from column
  offset \<open>c\<close> on: \<open>k\<close> nested \<^verbatim>\<open>UnaryOp\<close> nodes around a name. With 500
  minus signs it is a valid program that the parser accepts.
\<close>

fun unary_chain :: "nat \<Rightarrow> int \<Rightarrow> pyval" where
  "unary_chain 0 c = ast_Name ''x'' (1, c)"
| "unary_chain (Suc k) c =
     PNode ''UnaryOp'' [(''op'', PNode ''USub'' [] None), (''operand'', unary_chain k (c + 1))]
       (Some (1, c))"

definition deep_unit :: pyval where
  "deep_unit = ast_Module [ast_Expr (unary_chain 500 0) (1, 0)]"

text \<open>
  \<^verbatim>\<open>sys.getrecursionlimit()\<close> is 1000 unless a program changes it, and the script does
  not. The visitor is called from \<^verbatim>\<open>process_file\<close>, called from \<^verbatim>\<open>main\<close>, so
  fewer frames than that are free when the traversal starts.
\<close>

definition recursion_limit :: nat where
  "recursion_limit = 1000"

text \<open>
  \<^verbatim>\<open>import pkg.sub.mod\<close>: the statement starts at column offset 0, its one
  \<^verbatim>\<open>alias\<close> entry at column offset 7.
\<close>

definition import_stmt :: pyval where
  "import_stmt = ast_Import [ast_alias ''pkg.sub.mod'' PNone (1, 7)] (1, 0)"

text \<open>
  The position a row written for a node carries, and the property that every row of a
  list carries the position of one given node.
\<close>

fun reported_pos :: "pyval \<Rightarrow> (int \<times> int) option" where
  "reported_pos (PNode cls fs (Some (lineno, col_offset))) = Some (lineno, col_offset + 1)"
| "reported_pos v = None"

definition rows_at :: "pyval \<Rightarrow> row list \<Rightarrow> bool" where
  "rows_at node rs = list_all (\<lambda>r. Some (row_pos r) = reported_pos node) rs"


section \<open>Notions used to state the properties\<close>

text \<open>
  The loop of \<^verbatim>\<open>_visit_arguments\<close> over a list of default expressions:
  \<^verbatim>\<open>for default in ds:
      if default is not None:
          self.visit(default)\<close>
\<close>

definition visit_defaults :: "string \<Rightarrow> pyval list \<Rightarrow> outcome" where
  "visit_defaults fname ds =
     seqs (map (\<lambda>default. if default \<noteq> PNone then visit fname default else ok) ds)"

text \<open>The classes for which \<^verbatim>\<open>Visitor\<close> defines a \<^verbatim>\<open>visit_<Class>\<close> method.\<close>

definition visitor_methods :: "string list" where
  "visitor_methods =
     [''Name'', ''Call'', ''Attribute'', ''Import'', ''ImportFrom'', ''MatchAs'',
      ''FunctionDef'', ''Global'', ''Nonlocal'', ''ClassDef'', ''AsyncFunctionDef'']"

text \<open>
  The AST children of a node, in the order in which \<^verbatim>\<open>generic_visit\<close> reaches
  them (the nodes \<^verbatim>\<open>ast.iter_child_nodes\<close> yields).
\<close>

fun field_children :: "pyval \<Rightarrow> pyval list" where
  "field_children (PList items) = filter is_AST items"
| "field_children v = (if is_AST v then [v] else [])"

fun child_nodes :: "pyval \<Rightarrow> pyval list" where
  "child_nodes (PNode cls fs pos) = concat (map (\<lambda>(field, v). field_children v) fs)"
| "child_nodes v = []"

text \<open>
  The positions \<^verbatim>\<open>(lineno, col_offset)\<close> of the nodes of a tree, and the
  parser's convention for them: lines count from 1, column offsets from 0.
\<close>

fun positions :: "pyval \<Rightarrow> (int \<times> int) set" where
  "positions (PNode cls fs pos) = set_option pos \<union> (\<Union>(field, v) \<in> set fs. positions v)"
| "positions (PList xs) = (\<Union>x \<in> set xs. positions x)"
| "positions v = {}"

definition well_positioned :: "pyval \<Rightarrow> bool" where
  "well_positioned t = (\<forall>(lineno, col_offset) \<in> positions t. 1 \<le> lineno \<and> 0 \<le> col_offset)"

text \<open>
  The position a row points back to, and the outcomes all of whose rows point back into
  a given set of positions.
\<close>

definition origin :: "row \<Rightarrow> int \<times> int" where
  "origin r = (row_line r, row_column r - 1)"

definition rows_within :: "(int \<times> int) set \<Rightarrow> outcome \<Rightarrow> bool" where
  "rows_within S p = (\<forall>r \<in> set (rows p). origin r \<in> S)"

text \<open>
  Two outcomes that agree on what the specification calls the occurrence sequence (name,
  line and column of every row, in order) and on how they ended.
\<close>

definition same_occurrences :: "outcome \<Rightarrow> outcome \<Rightarrow> bool" where
  "same_occurrences p q =
     (map occurrence (rows p) = map occurrence (rows q) \<and> raised p = raised q)"

text \<open>
  What a run on a bounded stack is to the run on an unbounded one: the same outcome, or a
  run cut short by \<^verbatim>\<open>RecursionError\<close> that wrote a first part of the same rows.
\<close>

definition up_to_stack :: "outcome \<Rightarrow> outcome \<Rightarrow> bool" where
  "up_to_stack p q =
     (p = q \<or> (raised p = Some RecursionError \<and> (\<exists>rest. rows q = rows p @ rest)))"

section \<open>Sequencing\<close>

lemma andthen_ok_left: "andthen ok p = p"
  by (cases p) (simp add: ok_def)

lemma andthen_ok_right: "andthen p ok = p"
  by (cases p; cases "snd p") (auto simp: ok_def)

lemma andthen_assoc: "andthen (andthen p q) r = andthen p (andthen q r)"
  by (cases p; cases "snd p"; cases q; cases "snd q"; cases r) auto

lemma seqs_append: "seqs (ps @ qs) = andthen (seqs ps) (seqs qs)"
  by (induction ps) (simp_all add: andthen_ok_left andthen_assoc)

lemma seqs_filter_AST:
  "seqs (map (\<lambda>item. if is_AST item then visit fname item else ok) items) =
   seqs (map (visit fname) (filter is_AST items))"
  by (induction items) (simp_all add: andthen_ok_left)

lemma field_visit_children:
  "(case v of
      PList items \<Rightarrow> seqs (map (\<lambda>item. if is_AST item then visit fname item else ok) items)
    | _ \<Rightarrow> if is_AST v then visit fname v else ok) =
   seqs (map (visit fname) (field_children v))"
  by (cases v) (simp_all add: seqs_filter_AST andthen_ok_right del: visit.simps)

lemma generic_visit_children:
  "generic_visit fname (PNode cls fs pos) =
   seqs (map (visit fname) (child_nodes (PNode cls fs pos)))"
proof -
  have "seqs (map (\<lambda>(field, v). seqs (map (visit fname) (field_children v))) gs) =
        seqs (map (visit fname) (concat (map (\<lambda>(field, v). field_children v) gs)))" for gs
    by (induction gs) (auto simp: seqs_append)
  then show ?thesis
    by (simp add: field_visit_children del: visit.simps)
qed

lemma raised_andthen_None:
  "raised p = None \<Longrightarrow> raised q = None \<Longrightarrow> raised (andthen p q) = None"
  by (cases p; cases q) (simp add: raised_def)

lemma rows_andthen_None:
  "raised p = None \<Longrightarrow> rows (andthen p q) = rows p @ rows q"
  by (cases p; cases q) (simp add: raised_def rows_def)

lemma seqs_all_None:
  "\<forall>p \<in> set ps. raised p = None \<Longrightarrow>
   raised (seqs ps) = None \<and> rows (seqs ps) = concat (map rows ps)"
proof (induction ps)
  case Nil
  show ?case by (simp add: ok_def raised_def rows_def)
next
  case (Cons p ps)
  then show ?case by (simp add: raised_andthen_None rows_andthen_None)
qed

section \<open>Where the rows come from\<close>

lemma positions_getattr: "getattr n f = Inr v \<Longrightarrow> positions v \<subseteq> positions n"
  by (cases n) (auto split: option.splits if_splits dest!: map_of_SomeD)

lemma positions_iter: "iter v = Inr xs \<Longrightarrow> x \<in> set xs \<Longrightarrow> positions x \<subseteq> positions v"
  by (cases v) auto

lemma within_mono: "rows_within S p \<Longrightarrow> S \<subseteq> T \<Longrightarrow> rows_within T p"
  by (auto simp: rows_within_def)

lemma within_ok: "rows_within S ok"
  by (simp add: rows_within_def rows_def ok_def)

lemma within_raise: "rows_within S (raise e)"
  by (simp add: rows_within_def rows_def raise_def)

lemma within_andthen: "rows_within S p \<Longrightarrow> rows_within S q \<Longrightarrow> rows_within S (andthen p q)"
  by (cases p; cases "snd p"; cases q) (auto simp: rows_within_def rows_def)

lemma within_seqs: "(\<And>p. p \<in> set ps \<Longrightarrow> rows_within S p) \<Longrightarrow> rows_within S (seqs ps)"
  by (induction ps) (simp_all add: within_ok within_andthen)

lemma within_write_row: "rows_within (positions node) (write_row fname nm node)"
  by (cases "(fname, nm, node)" rule: write_row.cases)
     (simp_all add: rows_within_def rows_def raise_def origin_def)

lemma within_for_each:
  assumes "\<And>v xs x. src = Inr v \<Longrightarrow> iter v = Inr xs \<Longrightarrow> x \<in> set xs \<Longrightarrow> rows_within S (body x)"
  shows "rows_within S (for_each src body)"
proof (cases src)
  case (Inl e)
  then show ?thesis by (simp add: within_raise)
next
  case (Inr v)
  with assms show ?thesis
    by (cases "iter v") (auto simp: within_raise intro!: within_seqs)
qed

lemma within_write_parts: "rows_within (positions node) (write_parts fname dotted node)"
  unfolding write_parts_def
  by (cases "str_split dotted") (auto simp: within_raise within_ok within_write_row intro!: within_seqs)

lemma within_visit_keyword: "rows_within (positions node) (visit_keyword fname node)"
  unfolding visit_keyword_def
  by (cases "getattr node ''arg''") (simp_all add: within_raise within_ok within_write_row)

lemma within_visit_alias: "rows_within (positions node) (visit_alias fname node)"
  unfolding visit_alias_def
  by (cases "getattr node ''name''"; cases "getattr node ''asname''")
     (simp_all add: within_raise within_ok within_write_row within_write_parts within_andthen)

lemma within_visit_arg: "rows_within (positions arg) (visit_arg fname arg)"
  unfolding visit_arg_def
  by (cases "getattr arg ''arg''") (simp_all add: within_raise within_ok within_write_row)

lemma within_items:
  assumes "\<And>x. rows_within (positions x) (body x)"
  shows "rows_within (positions node) (for_each (getattr node f) body)"
proof (rule within_for_each)
  fix v xs x
  assume "getattr node f = Inr v" "iter v = Inr xs" "x \<in> set xs"
  then have "positions x \<subseteq> positions node"
    using positions_getattr positions_iter by blast
  with assms [of x] show "rows_within (positions node) (body x)"
    by (rule within_mono)
qed

lemma within_named:
  "rows_within (positions node)
     (case getattr node f of Inl e \<Rightarrow> raise e | Inr n \<Rightarrow> write_row fname n node)"
  by (cases "getattr node f") (simp_all add: within_raise within_write_row)

lemma within_dotted:
  "rows_within (positions node)
     (case getattr node f of Inl e \<Rightarrow> raise e
      | Inr m \<Rightarrow> if truthy m then write_parts fname m node else ok)"
  by (cases "getattr node f") (simp_all add: within_raise within_ok within_write_parts)

lemma within_names:
  "rows_within (positions node) (for_each src (\<lambda>n. write_row fname n node))"
  by (rule within_for_each) (rule within_write_row)

lemma within_methods:
  assumes "rows_within (positions node) gv"
  shows "rows_within (positions node) (visit_Name fname node gv)"
    and "rows_within (positions node) (visit_Call fname node gv)"
    and "rows_within (positions node) (visit_Attribute fname node gv)"
    and "rows_within (positions node) (visit_Import fname node gv)"
    and "rows_within (positions node) (visit_ImportFrom fname node gv)"
    and "rows_within (positions node) (visit_MatchAs fname node gv)"
    and "rows_within (positions node) (visit_Global fname node gv)"
    and "rows_within (positions node) (visit_Nonlocal fname node gv)"
    and "rows_within (positions node) (visit_ClassDef fname node gv)"
    and "rows_within (positions node) va \<Longrightarrow>
           rows_within (positions node) (visit_FunctionDef fname node va gv)"
    and "rows_within (positions node) va \<Longrightarrow>
           rows_within (positions node) (visit_AsyncFunctionDef fname node va gv)"
  unfolding visit_Name_def visit_Call_def visit_Attribute_def visit_Import_def
    visit_ImportFrom_def visit_MatchAs_def visit_Global_def visit_Nonlocal_def
    visit_ClassDef_def visit_FunctionDef_def visit_AsyncFunctionDef_def
  using assms
  by (auto intro!: within_andthen within_named within_dotted within_items
        within_visit_keyword within_visit_alias within_names)

lemma within_visit_Constant:
  "rows_within S gv \<Longrightarrow> rows_within S (visit_Constant fname node gv)"
  unfolding visit_Constant_def
  by (cases "getattr node ''value''") (simp_all add: within_raise)

lemma positions_field: "(f, v) \<in> set fs \<Longrightarrow> positions v \<subseteq> positions (PNode cls fs pos)"
  by auto

lemma positions_item: "x \<in> set xs \<Longrightarrow> positions x \<subseteq> positions (PList xs)"
  by auto

lemma within_field:
  "(f, v) \<in> set fs \<Longrightarrow> rows_within (positions v) p \<Longrightarrow>
   rows_within (positions (PNode cls fs pos)) p"
  using positions_field [of f v fs cls pos] by (blast intro: within_mono)

lemma within_field_item:
  "(f, PList xs) \<in> set fs \<Longrightarrow> x \<in> set xs \<Longrightarrow> rows_within (positions x) p \<Longrightarrow>
   rows_within (positions (PNode cls fs pos)) p"
  using positions_field [of f "PList xs" fs cls pos] positions_item [of x xs]
  by (blast intro: within_mono)

lemma within_default:
  "getattr a f = Inr ds \<Longrightarrow> iter ds = Inr xs \<Longrightarrow> x \<in> set xs \<Longrightarrow>
   rows_within (positions x) p \<Longrightarrow> rows_within (positions a) p"
  using positions_getattr positions_iter by (blast intro: within_mono)

lemma within_slot:
  "rows_within (positions args)
     (case getattr args f of Inl e \<Rightarrow> raise e | Inr a \<Rightarrow> visit_arg fname a)"
proof (cases "getattr args f")
  case (Inl e)
  then show ?thesis by (simp add: within_raise)
next
  case (Inr a)
  then have "positions a \<subseteq> positions args"
    by (rule positions_getattr)
  with within_visit_arg [of a fname] have "rows_within (positions args) (visit_arg fname a)"
    by (rule within_mono)
  with Inr show ?thesis by simp
qed

lemma within_seqs_map:
  "(\<And>x. x \<in> set xs \<Longrightarrow> rows_within S (g x)) \<Longrightarrow> rows_within S (seqs (map g xs))"
  by (rule within_seqs) auto

lemma within_if:
  "(c \<Longrightarrow> rows_within S p) \<Longrightarrow> (\<not> c \<Longrightarrow> rows_within S q) \<Longrightarrow>
   rows_within S (if c then p else q)"
  by simp

lemma within_visit:
  "rows_within (positions n) (visit fname n)"
  "rows_within (positions n) (generic_visit fname n)"
  "rows_within (positions a) (visit_arguments fname a)"
proof (induction fname n and fname n and fname a rule: visit_generic_visit_visit_arguments.induct)
  case (1 fname cls fs pos)
  let ?n = "PNode cls fs pos"
  from 1(1-6,8-11,13-15) have gv: "rows_within (positions ?n) (generic_visit fname ?n)"
    by blast
  have va: "rows_within (positions ?n)
      (case getattr ?n ''args'' of Inl e \<Rightarrow> raise e | Inr a \<Rightarrow> visit_arguments fname a)"
    if "cls = ''FunctionDef'' \<or> cls = ''AsyncFunctionDef''"
  proof (cases "getattr ?n ''args''")
    case (Inl e)
    then show ?thesis by (simp add: within_raise)
  next
    case (Inr a)
    from that have "rows_within (positions a) (visit_arguments fname a)"
    proof
      assume c: "cls = ''FunctionDef''"
      show ?thesis
      proof (rule 1(7))
        show "getattr ?n ''args'' = Inr a" by (fact Inr)
      qed (simp_all add: c)
    next
      assume c: "cls = ''AsyncFunctionDef''"
      show ?thesis
      proof (rule 1(12))
        show "getattr ?n ''args'' = Inr a" by (fact Inr)
      qed (simp_all add: c)
    qed
    moreover from Inr have "positions a \<subseteq> positions ?n"
      by (rule positions_getattr)
    ultimately have "rows_within (positions ?n) (visit_arguments fname a)"
      by (rule within_mono)
    with Inr show ?thesis by simp
  qed
  show ?case
    unfolding visit.simps(1)
    by (intro within_if within_methods within_visit_Constant gv va) simp_all
next
  case (6 fname cls fs pos)
  let ?S = "positions (PNode cls fs pos)"
  have "rows_within ?S
          (case v of
             PList items \<Rightarrow>
               seqs (map (\<lambda>item. if is_AST item then visit fname item else ok) items)
           | _ \<Rightarrow> if is_AST v then visit fname v else ok)"
    if fv: "(f, v) \<in> set fs" for f v
  proof (cases v)
    case (PList items)
    have "rows_within ?S (if is_AST item then visit fname item else ok)"
      if i: "item \<in> set items" for item
    proof (rule within_if)
      assume "is_AST item"
      with 6(4) [OF fv refl PList i] have "rows_within (positions item) (visit fname item)" .
      with fv [unfolded PList] i show "rows_within ?S (visit fname item)"
        by (rule within_field_item)
    qed (rule within_ok)
    then have "rows_within ?S
        (seqs (map (\<lambda>item. if is_AST item then visit fname item else ok) items))"
      by (rule within_seqs_map)
    with PList show ?thesis by simp
  next
    case (PNode c g p)
    then have "rows_within (positions v) (visit fname v)"
      using 6(5) [OF fv refl PNode] by simp
    with fv have "rows_within ?S (visit fname v)"
      by (rule within_field)
    with PNode show ?thesis by (simp del: visit.simps positions.simps)
  qed (simp_all add: within_ok)
  then have "rows_within ?S
      (seqs (map (\<lambda>(field, v).
             case v of
               PList items \<Rightarrow>
                 seqs (map (\<lambda>item. if is_AST item then visit fname item else ok) items)
             | _ \<Rightarrow> if is_AST v then visit fname v else ok) fs))"
    by (intro within_seqs_map) (auto simp del: positions.simps visit.simps)
  then show ?case
    by (simp only: generic_visit.simps)
next
  case (11 fname args)
  have d: "rows_within (positions args)
      (case getattr args f of
         Inl e \<Rightarrow> raise e
       | Inr ds \<Rightarrow>
          (case iter ds of
             Inl e \<Rightarrow> raise e
           | Inr xs \<Rightarrow>
               seqs (map (\<lambda>default. if default \<noteq> PNone then visit fname default
                                     else ok) xs)))"
    if ih: "\<And>b ba x. getattr args f = Inr b \<Longrightarrow> iter b = Inr ba \<Longrightarrow> x \<in> set ba \<Longrightarrow> x \<noteq> PNone
          \<Longrightarrow> rows_within (positions x) (visit fname x)" for f
  proof (cases "getattr args f")
    case (Inl e)
    then show ?thesis by (simp add: within_raise)
  next
    case ds: (Inr ds)
    show ?thesis
    proof (cases "iter ds")
      case (Inl e)
      with ds show ?thesis by (simp add: within_raise)
    next
      case xs: (Inr xs)
      have "rows_within (positions args) (if x \<noteq> PNone then visit fname x else ok)"
        if x: "x \<in> set xs" for x
      proof (rule within_if)
        assume "x \<noteq> PNone"
        then have "rows_within (positions x) (visit fname x)"
          by (rule ih [OF ds xs x])
        then show "rows_within (positions args) (visit fname x)"
          by (rule within_default [OF ds xs x])
      qed (rule within_ok)
      then have "rows_within (positions args)
          (seqs (map (\<lambda>default. if default \<noteq> PNone then visit fname default else ok) xs))"
        by (rule within_seqs_map)
      with ds xs show ?thesis by simp
    qed
  qed
  show ?case
    unfolding visit_arguments.simps [of fname args]
    by (intro within_andthen within_items within_visit_arg within_slot d 11)
qed (simp_all add: within_raise)

section \<open>What the rows depend on\<close>

lemma same_ok: "same_occurrences ok ok"
  by (simp add: same_occurrences_def)

lemma same_raise: "same_occurrences (raise e) (raise e)"
  by (simp add: same_occurrences_def)

lemma same_andthen:
  "same_occurrences p p' \<Longrightarrow> same_occurrences q q' \<Longrightarrow>
   same_occurrences (andthen p q) (andthen p' q')"
  by (cases p; cases "snd p"; cases p'; cases "snd p'"; cases q; cases q')
     (auto simp: same_occurrences_def rows_def raised_def)

lemma same_seqs_map:
  "(\<And>x. x \<in> set xs \<Longrightarrow> same_occurrences (g x) (g' x)) \<Longrightarrow>
   same_occurrences (seqs (map g xs)) (seqs (map g' xs))"
  by (induction xs) (simp_all add: same_ok same_andthen)

lemma same_if:
  "(c \<Longrightarrow> same_occurrences p p') \<Longrightarrow> (\<not> c \<Longrightarrow> same_occurrences q q') \<Longrightarrow>
   same_occurrences (if c then p else q) (if c then p' else q')"
  by simp

lemma same_attr:
  "(\<And>a. src = Inr a \<Longrightarrow> same_occurrences (g a) (g' a)) \<Longrightarrow>
   same_occurrences (case src of Inl e \<Rightarrow> raise e | Inr a \<Rightarrow> g a)
                    (case src of Inl e \<Rightarrow> raise e | Inr a \<Rightarrow> g' a)"
  by (cases src) (simp_all add: same_raise)

lemma same_write_row: "same_occurrences (write_row fname nm node) (write_row fname' nm node)"
  by (cases "(fname, nm, node)" rule: write_row.cases)
     (simp_all add: same_occurrences_def rows_def raised_def raise_def occurrence_def)

lemma same_for_each:
  assumes "\<And>x. same_occurrences (body x) (body' x)"
  shows "same_occurrences (for_each src body) (for_each src body')"
proof (cases src)
  case (Inl e)
  then show ?thesis by (simp add: same_raise)
next
  case (Inr v)
  then show ?thesis
    by (cases "iter v") (simp_all add: same_raise same_seqs_map assms)
qed

lemma same_write_parts:
  "same_occurrences (write_parts fname dotted node) (write_parts fname' dotted node)"
  unfolding write_parts_def
  by (intro same_attr same_seqs_map same_if same_write_row same_ok)

lemma same_visit_keyword:
  "same_occurrences (visit_keyword fname node) (visit_keyword fname' node)"
  unfolding visit_keyword_def
  by (intro same_attr same_if same_write_row same_ok)

lemma same_visit_alias:
  "same_occurrences (visit_alias fname node) (visit_alias fname' node)"
  unfolding visit_alias_def
  by (intro same_andthen same_attr same_if same_write_row same_write_parts same_ok)

lemma same_visit_arg:
  "same_occurrences (visit_arg fname arg) (visit_arg fname' arg)"
  unfolding visit_arg_def
  by (intro same_attr same_if same_write_row same_ok)

lemma same_methods:
  assumes "same_occurrences gv gv'"
  shows "same_occurrences (visit_Name fname node gv) (visit_Name fname' node gv')"
    and "same_occurrences (visit_Call fname node gv) (visit_Call fname' node gv')"
    and "same_occurrences (visit_Attribute fname node gv) (visit_Attribute fname' node gv')"
    and "same_occurrences (visit_Import fname node gv) (visit_Import fname' node gv')"
    and "same_occurrences (visit_ImportFrom fname node gv) (visit_ImportFrom fname' node gv')"
    and "same_occurrences (visit_MatchAs fname node gv) (visit_MatchAs fname' node gv')"
    and "same_occurrences (visit_Global fname node gv) (visit_Global fname' node gv')"
    and "same_occurrences (visit_Nonlocal fname node gv) (visit_Nonlocal fname' node gv')"
    and "same_occurrences (visit_ClassDef fname node gv) (visit_ClassDef fname' node gv')"
    and "same_occurrences va va' \<Longrightarrow>
           same_occurrences (visit_FunctionDef fname node va gv)
                            (visit_FunctionDef fname' node va' gv')"
    and "same_occurrences va va' \<Longrightarrow>
           same_occurrences (visit_AsyncFunctionDef fname node va gv)
                            (visit_AsyncFunctionDef fname' node va' gv')"
    and "same_occurrences (visit_Constant fname node gv) (visit_Constant fname' node gv')"
  unfolding visit_Constant_def visit_Name_def visit_Call_def visit_Attribute_def visit_Import_def
    visit_ImportFrom_def visit_MatchAs_def visit_Global_def visit_Nonlocal_def
    visit_ClassDef_def visit_FunctionDef_def visit_AsyncFunctionDef_def
  by (intro same_andthen same_attr same_if same_for_each same_write_row same_write_parts
        same_visit_keyword same_visit_alias same_ok assms | assumption)+

lemma same_visit:
  "same_occurrences (visit fname n) (visit fname' n)"
  "same_occurrences (generic_visit fname n) (generic_visit fname' n)"
  "same_occurrences (visit_arguments fname a) (visit_arguments fname' a)"
proof (induction fname n and fname n and fname a rule: visit_generic_visit_visit_arguments.induct)
  case (1 fname cls fs pos)
  let ?n = "PNode cls fs pos"
  from 1(1-6,8-11,13-15)
  have gv: "same_occurrences (generic_visit fname ?n) (generic_visit fname' ?n)"
    by blast
  have va: "same_occurrences
      (case getattr ?n ''args'' of Inl e \<Rightarrow> raise e | Inr a \<Rightarrow> visit_arguments fname a)
      (case getattr ?n ''args'' of Inl e \<Rightarrow> raise e | Inr a \<Rightarrow> visit_arguments fname' a)"
    if "cls = ''FunctionDef'' \<or> cls = ''AsyncFunctionDef''"
  proof (rule same_attr)
    fix a
    assume a: "getattr ?n ''args'' = Inr a"
    from that show "same_occurrences (visit_arguments fname a) (visit_arguments fname' a)"
    proof
      assume c: "cls = ''FunctionDef''"
      show ?thesis
      proof (rule 1(7))
        show "getattr ?n ''args'' = Inr a" by (fact a)
      qed (simp_all add: c)
    next
      assume c: "cls = ''AsyncFunctionDef''"
      show ?thesis
      proof (rule 1(12))
        show "getattr ?n ''args'' = Inr a" by (fact a)
      qed (simp_all add: c)
    qed
  qed
  show ?case
    unfolding visit.simps(1)
    by (intro same_if same_methods gv va) simp_all
next
  case (6 fname cls fs pos)
  have "same_occurrences
          (case v of
             PList items \<Rightarrow>
               seqs (map (\<lambda>item. if is_AST item then visit fname item else ok) items)
           | _ \<Rightarrow> if is_AST v then visit fname v else ok)
          (case v of
             PList items \<Rightarrow>
               seqs (map (\<lambda>item. if is_AST item then visit fname' item else ok) items)
           | _ \<Rightarrow> if is_AST v then visit fname' v else ok)"
    if fv: "(f, v) \<in> set fs" for f v
  proof (cases v)
    case (PList items)
    have "same_occurrences (if is_AST item then visit fname item else ok)
                           (if is_AST item then visit fname' item else ok)"
      if i: "item \<in> set items" for item
    proof (rule same_if)
      assume "is_AST item"
      then show "same_occurrences (visit fname item) (visit fname' item)"
        by (rule 6(4) [OF fv refl PList i])
    qed (rule same_ok)
    then have "same_occurrences
        (seqs (map (\<lambda>item. if is_AST item then visit fname item else ok) items))
        (seqs (map (\<lambda>item. if is_AST item then visit fname' item else ok) items))"
      by (rule same_seqs_map)
    with PList show ?thesis by simp
  next
    case (PNode c g p)
    then have "same_occurrences (visit fname v) (visit fname' v)"
      using 6(5) [OF fv refl PNode] by simp
    with PNode show ?thesis by (simp del: visit.simps)
  qed (simp_all add: same_ok)
  then have "same_occurrences
      (seqs (map (\<lambda>(field, v).
             case v of
               PList items \<Rightarrow>
                 seqs (map (\<lambda>item. if is_AST item then visit fname item else ok) items)
             | _ \<Rightarrow> if is_AST v then visit fname v else ok) fs))
      (seqs (map (\<lambda>(field, v).
             case v of
               PList items \<Rightarrow>
                 seqs (map (\<lambda>item. if is_AST item then visit fname' item else ok) items)
             | _ \<Rightarrow> if is_AST v then visit fname' v else ok) fs))"
    by (intro same_seqs_map) (auto simp del: visit.simps)
  then show ?case
    by (simp only: generic_visit.simps)
next
  case (11 fname args)
  have d: "same_occurrences
      (case getattr args f of
         Inl e \<Rightarrow> raise e
       | Inr ds \<Rightarrow>
          (case iter ds of
             Inl e \<Rightarrow> raise e
           | Inr xs \<Rightarrow>
               seqs (map (\<lambda>default. if default \<noteq> PNone then visit fname default
                                     else ok) xs)))
      (case getattr args f of
         Inl e \<Rightarrow> raise e
       | Inr ds \<Rightarrow>
          (case iter ds of
             Inl e \<Rightarrow> raise e
           | Inr xs \<Rightarrow>
               seqs (map (\<lambda>default. if default \<noteq> PNone then visit fname' default
                                     else ok) xs)))"
    if ih: "\<And>b ba x. getattr args f = Inr b \<Longrightarrow> iter b = Inr ba \<Longrightarrow> x \<in> set ba \<Longrightarrow> x \<noteq> PNone
          \<Longrightarrow> same_occurrences (visit fname x) (visit fname' x)" for f
    by (intro same_attr same_seqs_map same_if same_ok ih) 
  show ?case
    unfolding visit_arguments.simps [of _ args]
    by (intro same_andthen same_for_each same_visit_arg same_attr d 11)
qed (simp_all add: same_raise)

section \<open>Rows at the position of one node\<close>

lemma rows_at_Nil: "rows_at node []"
  by (simp add: rows_at_def)

lemma rows_at_ok: "rows_at node (rows ok)"
  by (simp add: rows_at_def rows_def ok_def)

lemma rows_at_raise: "rows_at node (rows (raise e))"
  by (simp add: rows_at_def rows_def raise_def)

lemma rows_at_andthen:
  "rows_at node (rows p) \<Longrightarrow> rows_at node (rows q) \<Longrightarrow> rows_at node (rows (andthen p q))"
  by (cases p; cases "snd p"; cases q) (auto simp: rows_at_def rows_def)

lemma rows_at_seqs_map:
  "(\<And>x. x \<in> set xs \<Longrightarrow> rows_at node (rows (g x))) \<Longrightarrow> rows_at node (rows (seqs (map g xs)))"
  by (induction xs) (simp_all add: rows_at_ok rows_at_andthen)

lemma rows_at_write_row: "rows_at node (rows (write_row fname nm node))"
  by (cases "(fname, nm, node)" rule: write_row.cases)
     (simp_all add: rows_at_def rows_def raise_def row_pos_def)

lemma rows_at_attr:
  "(\<And>a. src = Inr a \<Longrightarrow> rows_at node (rows (g a))) \<Longrightarrow>
   rows_at node (rows (case src of Inl e \<Rightarrow> raise e | Inr a \<Rightarrow> g a))"
  by (cases src) (simp_all add: rows_at_raise)

lemma rows_at_if:
  "(c \<Longrightarrow> rows_at node (rows p)) \<Longrightarrow> (\<not> c \<Longrightarrow> rows_at node (rows q)) \<Longrightarrow>
   rows_at node (rows (if c then p else q))"
  by simp

lemma rows_at_write_parts: "rows_at node (rows (write_parts fname dotted node))"
  unfolding write_parts_def
  by (intro rows_at_attr rows_at_seqs_map rows_at_if rows_at_write_row rows_at_ok)

lemma rows_at_names:
  "rows_at node (rows (for_each src (\<lambda>n. write_row fname n node)))"
proof (cases src)
  case (Inl e)
  then show ?thesis by (simp add: rows_at_raise)
next
  case (Inr v)
  then show ?thesis
    by (cases "iter v") (simp_all add: rows_at_raise rows_at_seqs_map rows_at_write_row)
qed

section \<open>The bounded stack against the unbounded one\<close>

lemma uts_refl: "up_to_stack p p"
  by (simp add: up_to_stack_def)

lemma uts_exhausted: "up_to_stack (raise RecursionError) q"
  by (simp add: up_to_stack_def raise_def raised_def rows_def)

lemma uts_andthen:
  "up_to_stack p p' \<Longrightarrow> up_to_stack q q' \<Longrightarrow> up_to_stack (andthen p q) (andthen p' q')"
  by (cases p; cases "snd p"; cases p'; cases "snd p'"; cases q; cases q')
     (auto simp: up_to_stack_def rows_def raised_def)

lemma uts_seqs_map:
  "(\<And>x. x \<in> set xs \<Longrightarrow> up_to_stack (g x) (g' x)) \<Longrightarrow>
   up_to_stack (seqs (map g xs)) (seqs (map g' xs))"
  by (induction xs) (simp_all add: uts_refl uts_andthen)

lemma uts_if:
  "(c \<Longrightarrow> up_to_stack p p') \<Longrightarrow> (\<not> c \<Longrightarrow> up_to_stack q q') \<Longrightarrow>
   up_to_stack (if c then p else q) (if c then p' else q')"
  by simp

lemma uts_attr:
  "(\<And>a. src = Inr a \<Longrightarrow> up_to_stack (g a) (g' a)) \<Longrightarrow>
   up_to_stack (case src of Inl e \<Rightarrow> raise e | Inr a \<Rightarrow> g a)
               (case src of Inl e \<Rightarrow> raise e | Inr a \<Rightarrow> g' a)"
  by (cases src) (simp_all add: uts_refl)

lemma uts_for_each:
  assumes "\<And>x. up_to_stack (body x) (body' x)"
  shows "up_to_stack (for_each src body) (for_each src body')"
proof (cases src)
  case (Inl e)
  then show ?thesis by (simp add: uts_refl)
next
  case (Inr v)
  then show ?thesis
    by (cases "iter v") (simp_all add: uts_refl uts_seqs_map assms)
qed

lemma uts_write: "up_to_stack (write_lim sink d fname nm node) (write_row fname nm node)"
  by (cases "(sink, d, fname, nm, node)" rule: write_lim.cases)
     (simp_all add: uts_refl uts_exhausted)

lemma uts_write_parts:
  "up_to_stack (write_parts_lim sink d fname dotted node) (write_parts fname dotted node)"
  unfolding write_parts_lim_def write_parts_def
  by (intro uts_attr uts_seqs_map uts_if uts_write uts_refl)

lemma uts_visit_keyword:
  "up_to_stack (visit_keyword_lim sink d fname node) (visit_keyword fname node)"
proof (cases d)
  case 0
  then show ?thesis by (simp add: uts_exhausted)
next
  case (Suc m)
  show ?thesis
    unfolding Suc visit_keyword_lim.simps visit_keyword_def
    by (intro uts_attr uts_if uts_write uts_refl)
qed

lemma uts_visit_alias:
  "up_to_stack (visit_alias_lim sink d fname node) (visit_alias fname node)"
proof (cases d)
  case 0
  then show ?thesis by (simp add: uts_exhausted)
next
  case (Suc m)
  show ?thesis
    unfolding Suc visit_alias_lim.simps visit_alias_def
    by (intro uts_andthen uts_attr uts_if uts_write uts_write_parts uts_refl)
qed

lemma uts_visit_arg:
  "up_to_stack (visit_arg_lim sink d fname arg) (visit_arg fname arg)"
proof (cases d)
  case 0
  then show ?thesis by (simp add: uts_exhausted)
next
  case (Suc m)
  show ?thesis
    unfolding Suc visit_arg_lim.simps visit_arg_def
    by (intro uts_attr uts_if uts_write uts_refl)
qed

lemma uts_visit_Name:
  "up_to_stack gv gv' \<Longrightarrow>
   up_to_stack (visit_Name_lim sink d fname node gv) (visit_Name fname node gv')"
proof (cases d)
  case 0
  then show ?thesis by (simp add: uts_exhausted)
next
  case (Suc m)
  assume "up_to_stack gv gv'"
  then show ?thesis
    unfolding Suc visit_Name_lim.simps visit_Name_def
    by (intro uts_andthen uts_attr uts_if uts_for_each uts_write uts_write_parts
          uts_visit_keyword uts_visit_alias uts_refl)
qed

lemma uts_visit_Call:
  "up_to_stack gv gv' \<Longrightarrow>
   up_to_stack (visit_Call_lim sink d fname node gv) (visit_Call fname node gv')"
proof (cases d)
  case 0
  then show ?thesis by (simp add: uts_exhausted)
next
  case (Suc m)
  assume "up_to_stack gv gv'"
  then show ?thesis
    unfolding Suc visit_Call_lim.simps visit_Call_def
    by (intro uts_andthen uts_attr uts_if uts_for_each uts_write uts_write_parts
          uts_visit_keyword uts_visit_alias uts_refl)
qed

lemma uts_visit_Attribute:
  "up_to_stack gv gv' \<Longrightarrow>
   up_to_stack (visit_Attribute_lim sink d fname node gv) (visit_Attribute fname node gv')"
proof (cases d)
  case 0
  then show ?thesis by (simp add: uts_exhausted)
next
  case (Suc m)
  assume "up_to_stack gv gv'"
  then show ?thesis
    unfolding Suc visit_Attribute_lim.simps visit_Attribute_def
    by (intro uts_andthen uts_attr uts_if uts_for_each uts_write uts_write_parts
          uts_visit_keyword uts_visit_alias uts_refl)
qed

lemma uts_visit_Import:
  "up_to_stack gv gv' \<Longrightarrow>
   up_to_stack (visit_Import_lim sink d fname node gv) (visit_Import fname node gv')"
proof (cases d)
  case 0
  then show ?thesis by (simp add: uts_exhausted)
next
  case (Suc m)
  assume "up_to_stack gv gv'"
  then show ?thesis
    unfolding Suc visit_Import_lim.simps visit_Import_def
    by (intro uts_andthen uts_attr uts_if uts_for_each uts_write uts_write_parts
          uts_visit_keyword uts_visit_alias uts_refl)
qed

lemma uts_visit_ImportFrom:
  "up_to_stack gv gv' \<Longrightarrow>
   up_to_stack (visit_ImportFrom_lim sink d fname node gv) (visit_ImportFrom fname node gv')"
proof (cases d)
  case 0
  then show ?thesis by (simp add: uts_exhausted)
next
  case (Suc m)
  assume "up_to_stack gv gv'"
  then show ?thesis
    unfolding Suc visit_ImportFrom_lim.simps visit_ImportFrom_def
    by (intro uts_andthen uts_attr uts_if uts_for_each uts_write uts_write_parts
          uts_visit_keyword uts_visit_alias uts_refl)
qed

lemma uts_visit_MatchAs:
  "up_to_stack gv gv' \<Longrightarrow>
   up_to_stack (visit_MatchAs_lim sink d fname node gv) (visit_MatchAs fname node gv')"
proof (cases d)
  case 0
  then show ?thesis by (simp add: uts_exhausted)
next
  case (Suc m)
  assume "up_to_stack gv gv'"
  then show ?thesis
    unfolding Suc visit_MatchAs_lim.simps visit_MatchAs_def
    by (intro uts_andthen uts_attr uts_if uts_for_each uts_write uts_write_parts
          uts_visit_keyword uts_visit_alias uts_refl)
qed

lemma uts_visit_Global:
  "up_to_stack gv gv' \<Longrightarrow>
   up_to_stack (visit_Global_lim sink d fname node gv) (visit_Global fname node gv')"
proof (cases d)
  case 0
  then show ?thesis by (simp add: uts_exhausted)
next
  case (Suc m)
  assume "up_to_stack gv gv'"
  then show ?thesis
    unfolding Suc visit_Global_lim.simps visit_Global_def
    by (intro uts_andthen uts_attr uts_if uts_for_each uts_write uts_write_parts
          uts_visit_keyword uts_visit_alias uts_refl)
qed

lemma uts_visit_Nonlocal:
  "up_to_stack gv gv' \<Longrightarrow>
   up_to_stack (visit_Nonlocal_lim sink d fname node gv) (visit_Nonlocal fname node gv')"
proof (cases d)
  case 0
  then show ?thesis by (simp add: uts_exhausted)
next
  case (Suc m)
  assume "up_to_stack gv gv'"
  then show ?thesis
    unfolding Suc visit_Nonlocal_lim.simps visit_Nonlocal_def
    by (intro uts_andthen uts_attr uts_if uts_for_each uts_write uts_write_parts
          uts_visit_keyword uts_visit_alias uts_refl)
qed

lemma uts_visit_ClassDef:
  "up_to_stack gv gv' \<Longrightarrow>
   up_to_stack (visit_ClassDef_lim sink d fname node gv) (visit_ClassDef fname node gv')"
proof (cases d)
  case 0
  then show ?thesis by (simp add: uts_exhausted)
next
  case (Suc m)
  assume "up_to_stack gv gv'"
  then show ?thesis
    unfolding Suc visit_ClassDef_lim.simps visit_ClassDef_def
    by (intro uts_andthen uts_attr uts_if uts_for_each uts_write uts_write_parts
          uts_visit_keyword uts_visit_alias uts_refl)
qed

lemma uts_visit_Constant:
  "up_to_stack gv gv' \<Longrightarrow>
   up_to_stack (visit_Constant_lim sink d fname node gv) (visit_Constant fname node gv')"
proof (cases d)
  case 0
  then show ?thesis by (simp add: uts_exhausted)
next
  case (Suc m)
  assume "up_to_stack gv gv'"
  then show ?thesis
    unfolding Suc visit_Constant_lim.simps visit_Constant_def
    by (intro uts_andthen uts_attr uts_if uts_for_each uts_write uts_write_parts
          uts_visit_keyword uts_visit_alias uts_refl)
qed

lemma uts_visit_FunctionDef:
  "up_to_stack va va' \<Longrightarrow> up_to_stack gv gv' \<Longrightarrow>
   up_to_stack (visit_FunctionDef_lim sink d fname node va gv) (visit_FunctionDef fname node va' gv')"
proof (cases d)
  case 0
  then show ?thesis by (simp add: uts_exhausted)
next
  case (Suc m)
  assume "up_to_stack va va'" "up_to_stack gv gv'"
  then show ?thesis
    unfolding Suc visit_FunctionDef_lim.simps visit_FunctionDef_def
    by (intro uts_andthen uts_attr uts_write)
qed

lemma uts_visit_AsyncFunctionDef:
  "up_to_stack va va' \<Longrightarrow> up_to_stack gv gv' \<Longrightarrow>
   up_to_stack (visit_AsyncFunctionDef_lim sink d fname node va gv) (visit_AsyncFunctionDef fname node va' gv')"
proof (cases d)
  case 0
  then show ?thesis by (simp add: uts_exhausted)
next
  case (Suc m)
  assume "up_to_stack va va'" "up_to_stack gv gv'"
  then show ?thesis
    unfolding Suc visit_AsyncFunctionDef_lim.simps visit_AsyncFunctionDef_def
    by (intro uts_andthen uts_attr uts_write)
qed

lemmas uts_methods = uts_visit_Name uts_visit_Call uts_visit_Attribute uts_visit_Import
  uts_visit_ImportFrom uts_visit_MatchAs uts_visit_Global uts_visit_Nonlocal
  uts_visit_ClassDef uts_visit_Constant uts_visit_FunctionDef uts_visit_AsyncFunctionDef


lemma uts_visit:
  "up_to_stack (visit_lim sink d fname n) (visit fname n)"
  "up_to_stack (generic_visit_lim sink d fname n) (generic_visit fname n)"
  "up_to_stack (visit_arguments_lim sink d fname a) (visit_arguments fname a)"
proof (induction sink d fname n and sink d fname n and sink d fname a
        rule: visit_lim_generic_visit_lim_visit_arguments_lim.induct)
  case (2 sink d fname cls fs pos)
  let ?n = "PNode cls fs pos"
  have gv: "up_to_stack (generic_visit_lim sink (d - 1) fname ?n) (generic_visit fname ?n)"
    if "cls = ''Name'' \<or> cls = ''Call'' \<or> cls = ''Attribute'' \<or> cls = ''Import'' \<or>
        cls = ''ImportFrom'' \<or> cls = ''MatchAs'' \<or> cls = ''FunctionDef'' \<or>
        cls = ''Global'' \<or> cls = ''Nonlocal'' \<or> cls = ''ClassDef'' \<or>
        cls = ''AsyncFunctionDef'' \<or> cls = ''Constant''"
    using that 2(1-6,8-11,13,14) by (elim disjE) simp_all
  have gd: "up_to_stack (generic_visit_lim sink d fname ?n) (generic_visit fname ?n)"
    if "cls \<noteq> ''Name''" "cls \<noteq> ''Call''" "cls \<noteq> ''Attribute''" "cls \<noteq> ''Import''"
       "cls \<noteq> ''ImportFrom''" "cls \<noteq> ''MatchAs''" "cls \<noteq> ''FunctionDef''"
       "cls \<noteq> ''Global''" "cls \<noteq> ''Nonlocal''" "cls \<noteq> ''ClassDef''"
       "cls \<noteq> ''AsyncFunctionDef''" "cls \<noteq> ''Constant''"
    using that by (rule 2(15))
  have va: "up_to_stack
      (case getattr ?n ''args'' of Inl e \<Rightarrow> raise e
       | Inr a \<Rightarrow> visit_arguments_lim sink (d - 1) fname a)
      (case getattr ?n ''args'' of Inl e \<Rightarrow> raise e | Inr a \<Rightarrow> visit_arguments fname a)"
    if "cls = ''FunctionDef'' \<or> cls = ''AsyncFunctionDef''"
  proof (rule uts_attr)
    fix a
    assume a: "getattr ?n ''args'' = Inr a"
    from that
    show "up_to_stack (visit_arguments_lim sink (d - 1) fname a) (visit_arguments fname a)"
    proof
      assume c: "cls = ''FunctionDef''"
      show ?thesis
      proof (rule 2(7))
        show "getattr ?n ''args'' = Inr a" by (fact a)
      qed (simp_all add: c)
    next
      assume c: "cls = ''AsyncFunctionDef''"
      show ?thesis
      proof (rule 2(12))
        show "getattr ?n ''args'' = Inr a" by (fact a)
      qed (simp_all add: c)
    qed
  qed
  show ?case
    unfolding visit_lim.simps visit.simps(1)
    by (intro uts_if uts_methods gv va gd) simp_all
next
  case (6 sink d fname cls fs pos)
  have "up_to_stack
          (case v of
             PList items \<Rightarrow>
               seqs (map (\<lambda>item. if is_AST item then visit_lim sink (Suc d) fname item else ok)
                       items)
           | _ \<Rightarrow> if is_AST v then visit_lim sink (Suc d) fname v else ok)
          (case v of
             PList items \<Rightarrow>
               seqs (map (\<lambda>item. if is_AST item then visit fname item else ok) items)
           | _ \<Rightarrow> if is_AST v then visit fname v else ok)"
    if fv: "(f, v) \<in> set fs" for f v
  proof (cases v)
    case (PList items)
    have "up_to_stack (if is_AST item then visit_lim sink (Suc d) fname item else ok)
                      (if is_AST item then visit fname item else ok)"
      if i: "item \<in> set items" for item
    proof (rule uts_if)
      assume "is_AST item"
      then show "up_to_stack (visit_lim sink (Suc d) fname item) (visit fname item)"
        by (rule 6(4) [OF fv refl PList i])
    qed (rule uts_refl)
    then have "up_to_stack
        (seqs (map (\<lambda>item. if is_AST item then visit_lim sink (Suc d) fname item else ok) items))
        (seqs (map (\<lambda>item. if is_AST item then visit fname item else ok) items))"
      by (rule uts_seqs_map)
    with PList show ?thesis by simp
  next
    case (PNode c g p)
    then have "up_to_stack (visit_lim sink (Suc d) fname v) (visit fname v)"
      using 6(5) [OF fv refl PNode] by simp
    with PNode show ?thesis by (simp del: visit.simps visit_lim.simps)
  qed (simp_all add: uts_refl)
  then have "up_to_stack
      (seqs (map (\<lambda>(field, v).
             case v of
               PList items \<Rightarrow>
                 seqs (map (\<lambda>item. if is_AST item then visit_lim sink (Suc d) fname item else ok)
                         items)
             | _ \<Rightarrow> if is_AST v then visit_lim sink (Suc d) fname v else ok) fs))
      (seqs (map (\<lambda>(field, v).
             case v of
               PList items \<Rightarrow>
                 seqs (map (\<lambda>item. if is_AST item then visit fname item else ok) items)
             | _ \<Rightarrow> if is_AST v then visit fname v else ok) fs))"
    by (intro uts_seqs_map) (auto simp del: visit.simps visit_lim.simps)
  then show ?case
    by (simp only: generic_visit.simps generic_visit_lim.simps)
next
  case (9 sink d fname args)
  have df: "up_to_stack
      (case getattr args f of
         Inl e \<Rightarrow> raise e
       | Inr ds \<Rightarrow>
          (case iter ds of
             Inl e \<Rightarrow> raise e
           | Inr xs \<Rightarrow>
               seqs (map (\<lambda>default. if default \<noteq> PNone then visit_lim sink d fname default
                                     else ok) xs)))
      (case getattr args f of
         Inl e \<Rightarrow> raise e
       | Inr ds \<Rightarrow>
          (case iter ds of
             Inl e \<Rightarrow> raise e
           | Inr xs \<Rightarrow>
               seqs (map (\<lambda>default. if default \<noteq> PNone then visit fname default
                                     else ok) xs)))"
    if ih: "\<And>b ba x. getattr args f = Inr b \<Longrightarrow> iter b = Inr ba \<Longrightarrow> x \<in> set ba \<Longrightarrow> x \<noteq> PNone
          \<Longrightarrow> up_to_stack (visit_lim sink d fname x) (visit fname x)" for f
    by (intro uts_attr uts_seqs_map uts_if uts_refl ih)
  show ?case
    unfolding visit_arguments.simps [of _ args] visit_arguments_lim.simps
    by (intro uts_andthen uts_for_each uts_visit_arg uts_attr df 9)
qed (simp_all add: uts_exhausted uts_refl)


lemma seqs_filter_AST_lim:
  "seqs (map (\<lambda>item. if is_AST item then visit_lim sink d fname item else ok) items) =
   seqs (map (visit_lim sink d fname) (filter is_AST items))"
  by (induction items) (simp_all add: andthen_ok_left)

lemma field_visit_children_lim:
  "(case v of
      PList items \<Rightarrow> seqs (map (\<lambda>item. if is_AST item then visit_lim sink d fname item else ok) items)
    | _ \<Rightarrow> if is_AST v then visit_lim sink d fname v else ok) =
   seqs (map (visit_lim sink d fname) (field_children v))"
  by (cases v) (simp_all add: seqs_filter_AST_lim andthen_ok_right del: visit_lim.simps)

lemma generic_visit_lim_children:
  "generic_visit_lim sink (Suc (Suc d)) fname (PNode cls fs pos) =
   seqs (map (visit_lim sink (Suc d) fname) (child_nodes (PNode cls fs pos)))"
proof -
  have "seqs (map (\<lambda>(field, v). seqs (map (visit_lim sink (Suc d) fname) (field_children v))) gs) =
        seqs (map (visit_lim sink (Suc d) fname)
               (concat (map (\<lambda>(field, v). field_children v) gs)))" for gs
    by (induction gs) (auto simp: seqs_append simp del: visit_lim.simps)
  then show ?thesis
    by (simp add: field_visit_children_lim del: visit_lim.simps)
qed

lemma frames_cases:
  obtains "d = 0" | "d = Suc 0" | "d = Suc (Suc 0)" | m where "d = Suc (Suc (Suc m))"
  by (metis not0_implies_Suc)

lemma visit_lim_USub:
  "visit_lim sink d fname (PNode ''USub'' [] None) = (if d < 3 then raise RecursionError else ok)"
  by (cases d rule: frames_cases) simp_all

lemma unary_chain_node: "is_AST (unary_chain k c)"
  by (cases k) (simp_all add: ast_Name_def)

lemma unary_chain_exhausts:
  "d \<le> 2 * k \<Longrightarrow> visit_lim sink d fname (unary_chain k c) = ([], Some RecursionError)"
proof (induction k arbitrary: d c)
  case 0
  then show ?case by (simp add: raise_def)
next
  case (Suc k)
  show ?case
  proof (cases d rule: frames_cases)
    case (4 m)
    with Suc.prems have "Suc m \<le> 2 * k" by simp
    then have "visit_lim sink (Suc m) fname (unary_chain k (c + 1)) = ([], Some RecursionError)"
      by (rule Suc.IH)
    moreover obtain cls fs pos where "unary_chain k (c + 1) = PNode cls fs pos"
      using unary_chain_node [of k "c + 1"] by (cases "unary_chain k (c + 1)") simp_all
    ultimately show ?thesis
      by (simp add: 4 visit_lim_USub ok_def raise_def
            del: visit_lim.simps(2) add: visit_lim.simps(2) [of _ _ _ "''UnaryOp''"])
  qed (simp_all add: raise_def)
qed

lemma visit_lim_Module_Expr:
  "visit_lim sink (Suc (Suc (Suc (Suc (Suc d))))) fname (ast_Module [ast_Expr (PNode cls fs pos) p]) =
   visit_lim sink (Suc d) fname (PNode cls fs pos)"
  by (simp add: ast_Module_def ast_Expr_def andthen_ok_right
        del: visit_lim.simps(2)
        add: visit_lim.simps(2) [of _ _ _ "''Module''"] visit_lim.simps(2) [of _ _ _ "''Expr''"])

section \<open>Properties of the traversal\<close>

text \<open>
  C1 (evaluated at the input on which it fails). In \<^verbatim>\<open>def f(x=y): pass\<close> the
  name \<^verbatim>\<open>y\<close> appears once, at line 1, column offset 8. The visitor writes it
  twice: \<^verbatim>\<open>_visit_arguments\<close> visits the default expression, and the
  \<^verbatim>\<open>generic_visit\<close> at the end of \<^verbatim>\<open>visit_FunctionDef\<close> reaches it
  again through the \<^verbatim>\<open>arguments\<close> node.
\<close>

theorem default_unit_rows:
  "map occurrence (rows (visit fname default_unit)) =
     [(PStr ''f'', 1, 1), (PStr ''x'', 1, 7), (PStr ''y'', 1, 9), (PStr ''y'', 1, 9)]"
  by code_simp

text \<open>
  C2, as stated, at \<^verbatim>\<open>import pkg.sub.mod\<close>: the rows do not carry the position
  of the import statement.
\<close>

theorem import_position_counterexample:
  "\<not> rows_at import_stmt (rows (visit ''m.py'' import_stmt))"
  by code_simp

text \<open>
  C2, amended. An import statement whose one entry is the dotted path
  \<^verbatim>\<open>pkg.sub.mod\<close> (no \<^verbatim>\<open>as\<close> name) yields exactly three rows, named
  \<^verbatim>\<open>pkg\<close>, \<^verbatim>\<open>sub\<close>, \<^verbatim>\<open>mod\<close> in this order, and all three carry
  the position of the \<^verbatim>\<open>alias\<close> entry (its line, its column offset plus one),
  wherever the statement itself is.
\<close>

theorem import_dotted_path:
  "visit fname (ast_Import [ast_alias ''pkg.sub.mod'' PNone (l, c)] sp) =
     ([\<lparr>row_name = PStr ''pkg'', row_line = l, row_column = c + 1, row_file = fname\<rparr>,
       \<lparr>row_name = PStr ''sub'', row_line = l, row_column = c + 1, row_file = fname\<rparr>,
       \<lparr>row_name = PStr ''mod'', row_line = l, row_column = c + 1, row_file = fname\<rparr>],
      None)"
  by (simp add: ast_Import_def ast_alias_def visit_Import_def visit_alias_def write_parts_def
        ok_def raise_def)

text \<open>
  C3 (evaluated at the input on which it fails). The wildcard pattern of
  \<^verbatim>\<open>case _:\<close> is a \<^verbatim>\<open>MatchAs\<close> node whose name is \<^verbatim>\<open>None\<close>;
  \<^verbatim>\<open>visit_MatchAs\<close> writes a row for it all the same, and the name of that row
  is \<^verbatim>\<open>None\<close>, not a non-empty string.
\<close>

theorem wildcard_unit_rows:
  "map occurrence (rows (visit fname wildcard_unit)) = [(PStr ''x'', 1, 7), (PNone, 2, 10)]"
  by code_simp

text \<open>
  C4. For the tree of \<^verbatim>\<open>def f(x, y=1): return obj.attr\<close> the visitor writes
  exactly the names \<^verbatim>\<open>f, x, y, obj, attr\<close>, in this order, and raises nothing.
\<close>

theorem example_unit_names:
  "map row_name (rows (visit fname example_unit)) =
     [PStr ''f'', PStr ''x'', PStr ''y'', PStr ''obj'', PStr ''attr'']
   \<and> raised (visit fname example_unit) = None"
  by code_simp

text \<open>
  C5. For the chain \<^verbatim>\<open>a.b.c\<close> over any base node \<^verbatim>\<open>a\<close>, in any context
  (read, assigned to or deleted), the visitor first does everything the visit of
  \<^verbatim>\<open>a\<close> does, then writes \<^verbatim>\<open>b\<close>, then \<^verbatim>\<open>c\<close>, and writes neither when the
  visit of the base raises. On a bounded call stack the run is this one or a first part of
  it, cut short by \<^verbatim>\<open>RecursionError\<close>: at no depth of the base is \<^verbatim>\<open>b\<close> or
  \<^verbatim>\<open>c\<close> written before a row of the base, or \<^verbatim>\<open>c\<close> before \<^verbatim>\<open>b\<close>.
\<close>

theorem attribute_chain_order:
  "visit fname
     (ast_Attribute_ctx (ast_Attribute_ctx (PNode cls fs pos) b k1 (l1, c1)) c k2 (l2, c2)) =
     andthen (visit fname (PNode cls fs pos))
       ([\<lparr>row_name = PStr b, row_line = l1, row_column = c1 + 1, row_file = fname\<rparr>,
         \<lparr>row_name = PStr c, row_line = l2, row_column = c2 + 1, row_file = fname\<rparr>],
        None)
   \<and> up_to_stack
        (visit_lim sink d fname
           (ast_Attribute_ctx (ast_Attribute_ctx (PNode cls fs pos) b k1 (l1, c1)) c k2 (l2, c2)))
        (andthen (visit fname (PNode cls fs pos))
           ([\<lparr>row_name = PStr b, row_line = l1, row_column = c1 + 1, row_file = fname\<rparr>,
             \<lparr>row_name = PStr c, row_line = l2, row_column = c2 + 1, row_file = fname\<rparr>],
            None))"
proof -
  obtain rs e where v: "visit fname (PNode cls fs pos) = (rs, e)"
    by (cases "visit fname (PNode cls fs pos)")
  have eq: "visit fname
     (ast_Attribute_ctx (ast_Attribute_ctx (PNode cls fs pos) b k1 (l1, c1)) c k2 (l2, c2)) =
     andthen (visit fname (PNode cls fs pos))
       ([\<lparr>row_name = PStr b, row_line = l1, row_column = c1 + 1, row_file = fname\<rparr>,
         \<lparr>row_name = PStr c, row_line = l2, row_column = c2 + 1, row_file = fname\<rparr>],
        None)"
    by (cases e; cases k1; cases k2)
       (simp_all add: ast_Attribute_ctx_def visit_Attribute_def ok_def raise_def v
          del: visit.simps(1)
          add: visit.simps(1)[of _ "''Attribute''"] visit.simps(1)[of _ "''Load''"]
            visit.simps(1)[of _ "''Store''"] visit.simps(1)[of _ "''Del''"])
  from uts_visit(1) [of sink d fname
      "ast_Attribute_ctx (ast_Attribute_ctx (PNode cls fs pos) b k1 (l1, c1)) c k2 (l2, c2)"]
  show ?thesis
    by (simp only: eq simp_thms)
qed


text \<open>
  C6. An absent parameter slot (\<^verbatim>\<open>None\<close>) writes nothing and raises nothing; a
  parameter writes one row, at its own position. Without a variadic-keyword parameter the
  pass over the parameter list ends with the visit of the keyword-only defaults; with one,
  the pass does exactly the same and then writes exactly one more row, for that parameter.
  The visit of a function definition, plain or \<^verbatim>\<open>async\<close>, is the row of its name,
  then this pass, then the generic traversal of its children. In that traversal the
  \<^verbatim>\<open>arguments\<close> node writes nothing for its parameters: a parameter node only has its
  annotation visited, and the default expressions are visited a second time, after the row
  of the variadic-keyword parameter.
\<close>

theorem kwarg_slot:
  "visit_arg fname PNone = ok
   \<and> visit_arg fname (ast_arg k ann (l, c)) =
       ([\<lparr>row_name = PStr k, row_line = l, row_column = c + 1, row_file = fname\<rparr>], None)
   \<and> visit_arguments fname (ast_arguments po as va ko kd PNone ds) =
       andthen (seqs (map (visit_arg fname) po))
      (andthen (seqs (map (visit_arg fname) as))
      (andthen (visit_arg fname va)
      (andthen (visit_defaults fname ds)
      (andthen (seqs (map (visit_arg fname) ko))
               (visit_defaults fname kd)))))
   \<and> visit_arguments fname (ast_arguments po as va ko kd (ast_arg k ann (l, c)) ds) =
       andthen (visit_arguments fname (ast_arguments po as va ko kd PNone ds))
         ([\<lparr>row_name = PStr k, row_line = l, row_column = c + 1, row_file = fname\<rparr>], None)
   \<and> visit fname (ast_arg k ann p) = seqs (map (visit fname) (field_children ann))
   \<and> visit fname (ast_arguments po as va ko kd kw ds) =
       seqs (map (visit fname)
         (filter is_AST po @ filter is_AST as @ field_children va @ filter is_AST ko @
          filter is_AST kd @ field_children kw @ filter is_AST ds))
   \<and> visit fname (ast_FunctionDef n args body decs ret (fl, fc)) =
       andthen ([\<lparr>row_name = PStr n, row_line = fl, row_column = fc + 1, row_file = fname\<rparr>],
                None)
      (andthen (visit_arguments fname args)
               (seqs (map (visit fname)
                  (field_children args @ filter is_AST body @ filter is_AST decs @
                   field_children ret))))
   \<and> visit fname (ast_AsyncFunctionDef n args body decs ret (fl, fc)) =
       andthen ([\<lparr>row_name = PStr n, row_line = fl, row_column = fc + 1, row_file = fname\<rparr>],
                None)
      (andthen (visit_arguments fname args)
               (seqs (map (visit fname)
                  (field_children args @ filter is_AST body @ filter is_AST decs @
                   field_children ret))))"
proof -
  have a: "visit_arg fname PNone = ok"
    by (simp add: visit_arg_def)
  have a': "visit_arg fname (ast_arg k ann (l, c)) =
       ([\<lparr>row_name = PStr k, row_line = l, row_column = c + 1, row_file = fname\<rparr>], None)"
    by (simp add: visit_arg_def ast_arg_def)
  have b: "visit_arguments fname (ast_arguments po as va ko kd PNone ds) =
       andthen (seqs (map (visit_arg fname) po))
      (andthen (seqs (map (visit_arg fname) as))
      (andthen (visit_arg fname va)
      (andthen (visit_defaults fname ds)
      (andthen (seqs (map (visit_arg fname) ko))
               (visit_defaults fname kd)))))"
    by (simp add: ast_arguments_def a visit_defaults_def andthen_ok_right optional_fields_def
          del: visit.simps)
  have c: "visit_arguments fname (ast_arguments po as va ko kd (ast_arg k ann (l, c)) ds) =
       andthen (visit_arguments fname (ast_arguments po as va ko kd PNone ds))
         ([\<lparr>row_name = PStr k, row_line = l, row_column = c + 1, row_file = fname\<rparr>], None)"
    by (simp add: ast_arguments_def ast_arg_def visit_arg_def optional_fields_def
          andthen_ok_right andthen_assoc del: visit.simps)
  have d: "visit fname (ast_arg k ann p) = seqs (map (visit fname) (field_children ann))"
    unfolding ast_arg_def
    by (simp only: generic_visit_children visit.simps) (simp add: andthen_ok_right)
  have e: "visit fname (ast_arguments po as va ko kd kw ds) =
       seqs (map (visit fname)
         (filter is_AST po @ filter is_AST as @ field_children va @ filter is_AST ko @
          filter is_AST kd @ field_children kw @ filter is_AST ds))"
    unfolding ast_arguments_def
    by (simp only: generic_visit_children visit.simps) simp
  have f: "visit fname (ast_FunctionDef n args body decs ret (fl, fc)) =
       andthen ([\<lparr>row_name = PStr n, row_line = fl, row_column = fc + 1, row_file = fname\<rparr>],
                None)
      (andthen (visit_arguments fname args)
               (seqs (map (visit fname)
                  (field_children args @ filter is_AST body @ filter is_AST decs @
                   field_children ret))))"
    unfolding ast_FunctionDef_def
    by (simp only: generic_visit_children visit.simps)
       (simp add: visit_FunctionDef_def del: visit_arguments.simps visit.simps)
  have g: "visit fname (ast_AsyncFunctionDef n args body decs ret (fl, fc)) =
       andthen ([\<lparr>row_name = PStr n, row_line = fl, row_column = fc + 1, row_file = fname\<rparr>],
                None)
      (andthen (visit_arguments fname args)
               (seqs (map (visit fname)
                  (field_children args @ filter is_AST body @ filter is_AST decs @
                   field_children ret))))"
    unfolding ast_AsyncFunctionDef_def
    by (simp only: generic_visit_children visit.simps)
       (simp add: visit_AsyncFunctionDef_def del: visit_arguments.simps visit.simps)
  from a a' b c d e f g show ?thesis by (simp only: simp_thms)
qed


text \<open>
  C7, as stated, at the unit of 500 minus signs followed by \<^verbatim>\<open>x\<close>, every node of
  which but the innermost name has a kind outside the rule table: with the whole default
  stack of 1000 frames the visit raises \<^verbatim>\<open>RecursionError\<close>, whatever the writing
  of a row needs.
\<close>

theorem deep_unit_exhausts:
  "\<forall>sink. visit_lim sink recursion_limit ''m.py'' deep_unit = ([], Some RecursionError)"
proof
  fix sink
  have c: "visit_lim sink (Suc 995) ''m.py'' (unary_chain 500 0) = ([], Some RecursionError)"
    by (rule unary_chain_exhausts) simp
  obtain cls fs pos where n: "unary_chain 500 0 = PNode cls fs pos"
    using unary_chain_node [of 500 0] by (cases "unary_chain 500 0") simp_all
  have l: "recursion_limit = Suc (Suc (Suc (Suc (Suc 995))))"
    by (simp add: recursion_limit_def)
  show "visit_lim sink recursion_limit ''m.py'' deep_unit = ([], Some RecursionError)"
    unfolding l deep_unit_def n visit_lim_Module_Expr
    using c unfolding n .
qed


text \<open>
  C7, amended. A node whose class has no visit method (none of the eleven of
  \<^verbatim>\<open>Visitor\<close>, and not \<^verbatim>\<open>Constant\<close>) writes no row of its own. Called with at
  least three free frames, its visit is the visits of its children, in order, each with
  two frames fewer, stopping at the first child whose visit raises; it needs no position;
  when no child raises, it does not raise and its rows are the children's rows. Called with
  fewer than three free frames it raises \<^verbatim>\<open>RecursionError\<close> and writes nothing. On an
  unbounded stack its visit is the visits of its children. A \<^verbatim>\<open>Constant\<close> node, which
  the inherited \<^verbatim>\<open>visit_Constant\<close> handles, is traversed the same way with one frame
  more when it has its \<^verbatim>\<open>value\<close> field, and raises \<^verbatim>\<open>AttributeError\<close> when it
  has none.
\<close>

theorem unrecognized_kind:
  assumes "cls \<notin> set visitor_methods" and "cls \<noteq> ''Constant''"
  shows "visit_lim sink (Suc (Suc (Suc d))) fname (PNode cls fs pos) =
           seqs (map (visit_lim sink (Suc d) fname) (child_nodes (PNode cls fs pos)))
         \<and> ((\<forall>c \<in> set (child_nodes (PNode cls fs pos)).
                raised (visit_lim sink (Suc d) fname c) = None) \<longrightarrow>
              raised (visit_lim sink (Suc (Suc (Suc d))) fname (PNode cls fs pos)) = None
              \<and> rows (visit_lim sink (Suc (Suc (Suc d))) fname (PNode cls fs pos)) =
                  concat (map (\<lambda>c. rows (visit_lim sink (Suc d) fname c))
                            (child_nodes (PNode cls fs pos))))
         \<and> visit_lim sink 0 fname (PNode cls fs pos) = ([], Some RecursionError)
         \<and> visit_lim sink (Suc 0) fname (PNode cls fs pos) = ([], Some RecursionError)
         \<and> visit_lim sink (Suc (Suc 0)) fname (PNode cls fs pos) = ([], Some RecursionError)
         \<and> visit fname (PNode cls fs pos) =
             seqs (map (visit fname) (child_nodes (PNode cls fs pos)))
         \<and> visit_lim sink (Suc (Suc (Suc (Suc d)))) fname (PNode ''Constant'' fs pos) =
             (case getattr (PNode ''Constant'' fs pos) ''value'' of
                Inl e \<Rightarrow> raise e
              | Inr v \<Rightarrow> seqs (map (visit_lim sink (Suc d) fname)
                                (child_nodes (PNode ''Constant'' fs pos))))"
proof -
  from assms have g: "visit_lim sink (Suc k) fname (PNode cls fs pos) =
      generic_visit_lim sink k fname (PNode cls fs pos)" for k
    by (simp add: visitor_methods_def del: generic_visit_lim.simps)
  have eq: "visit_lim sink (Suc (Suc (Suc d))) fname (PNode cls fs pos) =
      seqs (map (visit_lim sink (Suc d) fname) (child_nodes (PNode cls fs pos)))"
    by (simp only: g generic_visit_lim_children)
  have all: "raised (visit_lim sink (Suc (Suc (Suc d))) fname (PNode cls fs pos)) = None
      \<and> rows (visit_lim sink (Suc (Suc (Suc d))) fname (PNode cls fs pos)) =
          concat (map (\<lambda>c. rows (visit_lim sink (Suc d) fname c)) (child_nodes (PNode cls fs pos)))"
    if "\<forall>c \<in> set (child_nodes (PNode cls fs pos)). raised (visit_lim sink (Suc d) fname c) = None"
    using seqs_all_None [of "map (visit_lim sink (Suc d) fname) (child_nodes (PNode cls fs pos))"] that
    by (simp only: eq) (simp add: comp_def del: visit_lim.simps child_nodes.simps)
  have few: "visit_lim sink 0 fname (PNode cls fs pos) = ([], Some RecursionError)"
    "visit_lim sink (Suc 0) fname (PNode cls fs pos) = ([], Some RecursionError)"
    "visit_lim sink (Suc (Suc 0)) fname (PNode cls fs pos) = ([], Some RecursionError)"
    by (simp_all only: g) (simp_all add: raise_def)
  from assms have "visit fname (PNode cls fs pos) = generic_visit fname (PNode cls fs pos)"
    by (simp add: visitor_methods_def del: generic_visit.simps)
  then have un: "visit fname (PNode cls fs pos) =
      seqs (map (visit fname) (child_nodes (PNode cls fs pos)))"
    by (simp only: generic_visit_children)
  have const: "visit_lim sink (Suc (Suc (Suc (Suc d)))) fname (PNode ''Constant'' fs pos) =
             (case getattr (PNode ''Constant'' fs pos) ''value'' of
                Inl e \<Rightarrow> raise e
              | Inr v \<Rightarrow> seqs (map (visit_lim sink (Suc d) fname)
                                (child_nodes (PNode ''Constant'' fs pos))))"
    by (simp only: visit_lim.simps visit_Constant_lim.simps generic_visit_lim_children
          diff_Suc_1) simp
  from eq all few un const show ?thesis by blast
qed

theorem unrecognized_kind_witness:
  "''Return'' \<notin> set visitor_methods \<and> ''Return'' \<noteq> ''Constant''
   \<and> child_nodes (ast_Return (ast_Name ''obj'' (2, 11)) (2, 4)) = [ast_Name ''obj'' (2, 11)]
   \<and> raised (visit_lim 2 (Suc 5) ''m.py'' (ast_Name ''obj'' (2, 11))) = None
   \<and> visit_lim 2 (Suc (Suc (Suc 5))) ''m.py'' (ast_Return (ast_Name ''obj'' (2, 11)) (2, 4)) =
       ([\<lparr>row_name = PStr ''obj'', row_line = 2, row_column = 12, row_file = ''m.py''\<rparr>], None)"
proof -
  have k: "''Return'' \<notin> set visitor_methods" and k': "''Return'' \<noteq> ''Constant''"
    by (simp_all add: visitor_methods_def)
  have c: "child_nodes (ast_Return (ast_Name ''obj'' (2, 11)) (2, 4)) = [ast_Name ''obj'' (2, 11)]"
    by (simp add: ast_Return_def ast_Name_def)
  have n: "visit_lim 2 (Suc 5) ''m.py'' (ast_Name ''obj'' (2, 11)) =
       ([\<lparr>row_name = PStr ''obj'', row_line = 2, row_column = 12, row_file = ''m.py''\<rparr>], None)"
    by code_simp
  from unrecognized_kind [OF k k', where sink = 2 and d = 5 and fname = "''m.py''"
      and fs = "[(''value'', ast_Name ''obj'' (2, 11))]" and pos = "Some (2, 4)"]
  have "visit_lim 2 (Suc (Suc (Suc 5))) ''m.py'' (ast_Return (ast_Name ''obj'' (2, 11)) (2, 4)) =
          seqs (map (visit_lim 2 (Suc 5) ''m.py'')
                  (child_nodes (ast_Return (ast_Name ''obj'' (2, 11)) (2, 4))))"
    by (simp only: ast_Return_def)
  with k k' c n show ?thesis
    by (simp add: raised_def ok_def)
qed

text \<open>
  C8. Every row the visitor writes for a tree carries the line of some node of that tree
  and that node's column offset plus one; hence, for a tree positioned as the parser
  positions it (lines from 1, column offsets from 0), every row has a line of at least 1
  and a column of at least 1. The node is the one the rule hands to \<^verbatim>\<open>_write\<close>:
  \<^verbatim>\<open>_write(name, node)\<close> writes \<^verbatim>\<open>node.lineno\<close> and
  \<^verbatim>\<open>node.col_offset + 1\<close>; the rows of a keyword argument, of an import entry and of
  a parameter carry the position of the \<^verbatim>\<open>keyword\<close>, \<^verbatim>\<open>alias\<close> and
  \<^verbatim>\<open>arg\<close> node; every method writes the rows that are its own (the name of a name
  reference, attribute, capture pattern, function or class, the names of a global or
  nonlocal declaration, the module path of an import-from) at the position of the node it
  visits, before the rest, after it for an attribute; all other rows of a call, a class
  definition and an import are those of their keyword arguments and entries.
\<close>

theorem reported_position:
  assumes "r \<in> set (rows (visit fname t))"
  shows "(\<exists>(lineno, col_offset) \<in> positions t.
            row_line r = lineno \<and> row_column r = col_offset + 1)
         \<and> (well_positioned t \<longrightarrow> 1 \<le> row_line r \<and> 1 \<le> row_column r)
         \<and> write_row fname nm (PNode cls fs (Some (lineno, col_offset))) =
             ([\<lparr>row_name = nm, row_line = lineno, row_column = col_offset + 1,
                row_file = fname\<rparr>], None)
         \<and> rows_at node (rows (write_row fname nm node))
         \<and> rows_at node (rows (visit_keyword fname node))
         \<and> rows_at node (rows (visit_alias fname node))
         \<and> rows_at node (rows (visit_arg fname node))
         \<and> (\<exists>own. rows_at node (rows own)
               \<and> (\<forall>gv. visit_Name fname node gv = andthen own gv))
         \<and> (\<exists>own. rows_at node (rows own)
               \<and> (\<forall>gv. visit_Attribute fname node gv = andthen gv own))
         \<and> (\<exists>own. rows_at node (rows own)
               \<and> (\<forall>gv. visit_MatchAs fname node gv = andthen own gv))
         \<and> (\<exists>own. rows_at node (rows own)
               \<and> (\<forall>gv. visit_Global fname node gv = andthen own gv))
         \<and> (\<exists>own. rows_at node (rows own)
               \<and> (\<forall>gv. visit_Nonlocal fname node gv = andthen own gv))
         \<and> (\<exists>own. rows_at node (rows own)
               \<and> (\<forall>va gv. visit_FunctionDef fname node va gv = andthen own (andthen va gv)))
         \<and> (\<exists>own. rows_at node (rows own)
               \<and> (\<forall>va gv. visit_AsyncFunctionDef fname node va gv =
                     andthen own (andthen va gv)))
         \<and> (\<exists>own. rows_at node (rows own)
               \<and> (\<forall>gv. visit_ClassDef fname node gv =
                     andthen own
                       (andthen (for_each (getattr node ''keywords'') (visit_keyword fname)) gv)))
         \<and> (\<exists>own. rows_at node (rows own)
               \<and> (\<forall>gv. visit_ImportFrom fname node gv =
                     andthen own
                       (andthen (for_each (getattr node ''names'') (visit_alias fname)) gv)))
         \<and> (\<forall>gv. visit_Call fname node gv =
               andthen (for_each (getattr node ''keywords'') (visit_keyword fname)) gv)
         \<and> (\<forall>gv. visit_Import fname node gv =
               andthen (for_each (getattr node ''names'') (visit_alias fname)) gv)"
proof -
  from within_visit(1) [of t fname] assms have "origin r \<in> positions t"
    by (simp add: rows_within_def)
  then have *: "(row_line r, row_column r - 1) \<in> positions t"
    by (simp add: origin_def)
  then have g1: "\<exists>(lineno, col_offset) \<in> positions t.
            row_line r = lineno \<and> row_column r = col_offset + 1"
    by force
  from * have g2: "well_positioned t \<longrightarrow> 1 \<le> row_line r \<and> 1 \<le> row_column r"
    by (fastforce simp: well_positioned_def)
  have w: "write_row fname nm (PNode cls fs (Some (lineno, col_offset))) =
             ([\<lparr>row_name = nm, row_line = lineno, row_column = col_offset + 1,
                row_file = fname\<rparr>], None)"
    by simp
  have named: "rows_at node
      (rows (case getattr node f of Inl e \<Rightarrow> raise e | Inr n \<Rightarrow> write_row fname n node))" for f
    by (intro rows_at_attr rows_at_write_row)
  have kw: "rows_at node (rows (visit_keyword fname node))"
    unfolding visit_keyword_def
    by (intro rows_at_attr rows_at_if rows_at_write_row rows_at_ok)
  have al: "rows_at node (rows (visit_alias fname node))"
    unfolding visit_alias_def
    by (intro rows_at_andthen rows_at_attr rows_at_if rows_at_write_row rows_at_write_parts
          rows_at_ok)
  have ar: "rows_at node (rows (visit_arg fname node))"
    unfolding visit_arg_def
    by (intro rows_at_attr rows_at_if rows_at_write_row rows_at_ok)
  have dotted: "rows_at node
      (rows (case getattr node f of Inl e \<Rightarrow> raise e
             | Inr m \<Rightarrow> if truthy m then write_parts fname m node else ok))" for f
    by (intro rows_at_attr rows_at_if rows_at_write_parts rows_at_ok)
  have m1: "\<exists>own. rows_at node (rows own) \<and> (\<forall>gv. visit_Name fname node gv = andthen own gv)"
    unfolding visit_Name_def using named by blast
  have m2: "\<exists>own. rows_at node (rows own)
      \<and> (\<forall>gv. visit_Attribute fname node gv = andthen gv own)"
    unfolding visit_Attribute_def using named by blast
  have m3: "\<exists>own. rows_at node (rows own) \<and> (\<forall>gv. visit_MatchAs fname node gv = andthen own gv)"
    unfolding visit_MatchAs_def using named by blast
  have m4: "\<exists>own. rows_at node (rows own) \<and> (\<forall>gv. visit_Global fname node gv = andthen own gv)"
    unfolding visit_Global_def using rows_at_names by blast
  have m5: "\<exists>own. rows_at node (rows own)
      \<and> (\<forall>gv. visit_Nonlocal fname node gv = andthen own gv)"
    unfolding visit_Nonlocal_def using rows_at_names by blast
  have m6: "\<exists>own. rows_at node (rows own)
      \<and> (\<forall>va gv. visit_FunctionDef fname node va gv = andthen own (andthen va gv))"
    unfolding visit_FunctionDef_def using named by blast
  have m7: "\<exists>own. rows_at node (rows own)
      \<and> (\<forall>va gv. visit_AsyncFunctionDef fname node va gv = andthen own (andthen va gv))"
    unfolding visit_AsyncFunctionDef_def using named by blast
  have m8: "\<exists>own. rows_at node (rows own)
      \<and> (\<forall>gv. visit_ClassDef fname node gv =
            andthen own (andthen (for_each (getattr node ''keywords'') (visit_keyword fname)) gv))"
    unfolding visit_ClassDef_def using named by blast
  have m9: "\<exists>own. rows_at node (rows own)
      \<and> (\<forall>gv. visit_ImportFrom fname node gv =
            andthen own (andthen (for_each (getattr node ''names'') (visit_alias fname)) gv))"
    unfolding visit_ImportFrom_def using dotted by blast
  have m10: "\<forall>gv. visit_Call fname node gv =
               andthen (for_each (getattr node ''keywords'') (visit_keyword fname)) gv"
    by (simp add: visit_Call_def)
  have m11: "\<forall>gv. visit_Import fname node gv =
               andthen (for_each (getattr node ''names'') (visit_alias fname)) gv"
    by (simp add: visit_Import_def)
  from g1 g2 w rows_at_write_row [of node fname nm] kw al ar m1 m2 m3 m4 m5 m6 m7 m8 m9 m10 m11
  show ?thesis by (intro conjI)
qed

theorem reported_position_witness:
  "\<lparr>row_name = PStr ''obj'', row_line = 2, row_column = 12, row_file = ''m.py''\<rparr>
     \<in> set (rows (visit ''m.py'' example_unit))
   \<and> well_positioned example_unit
   \<and> (2, 11) \<in> positions example_unit
   \<and> (1::int) \<le> 2 \<and> (1::int) \<le> 12"
proof -
  let ?r = "\<lparr>row_name = PStr ''obj'', row_line = 2, row_column = 12, row_file = ''m.py''\<rparr>"
  have m: "?r \<in> set (rows (visit ''m.py'' example_unit))"
    by code_simp
  have w: "well_positioned example_unit"
    by code_simp
  have p: "(2, 11) \<in> positions example_unit"
    by code_simp
  from reported_position [OF m] w have "1 \<le> row_line ?r \<and> 1 \<le> row_column ?r"
    by blast
  with m w p show ?thesis by simp
qed

text \<open>
  C9. The visit is a function of the tree. The one other input of the visitor, the file
  name it was created with, is copied into the file column of each row and changes
  nothing else: two runs on the same tree write the same occurrences (name, line,
  column) in the same order and end the same way, whatever their file names.
\<close>

theorem occurrences_from_tree_alone:
  "map occurrence (rows (visit fname t)) = map occurrence (rows (visit fname' t))
   \<and> raised (visit fname t) = raised (visit fname' t)"
  using same_visit(1) [of fname t fname'] by (simp add: same_occurrences_def)

text \<open>
  C10. A call writes one row per keyword argument that \<^verbatim>\<open>_visit_keyword\<close> lets
  through and then visits its children, the keyword nodes among them. For a keyword
  argument without a parameter name (\<^verbatim>\<open>**mapping\<close>) \<^verbatim>\<open>_visit_keyword\<close>
  writes nothing and raises nothing, and the visit of the keyword node is the visit of its
  value. A keyword argument with a name writes one row.
\<close>

theorem double_star_keyword:
  "visit fname (ast_Call f as ks q) =
     andthen (seqs (map (visit_keyword fname) ks))
       (seqs (map (visit fname) (child_nodes (ast_Call f as ks q))))
   \<and> visit_keyword fname (ast_keyword PNone v p) = ok
   \<and> visit fname (ast_keyword PNone (PNode cls fs pos) p) = visit fname (PNode cls fs pos)
   \<and> visit_keyword fname (ast_keyword (PStr (k0 # k)) v (l, c)) =
       ([\<lparr>row_name = PStr (k0 # k), row_line = l, row_column = c + 1, row_file = fname\<rparr>], None)"
proof -
  have "visit fname (ast_Call f as ks q) =
     andthen (seqs (map (visit_keyword fname) ks))
       (seqs (map (visit fname) (child_nodes (ast_Call f as ks q))))"
    unfolding ast_Call_def generic_visit_children [symmetric]
    by (simp add: visit_Call_def
        del: visit.simps(1) generic_visit.simps add: visit.simps(1)[of _ "''Call''"])
  moreover have "visit_keyword fname (ast_keyword PNone v p) = ok"
    by (simp add: ast_keyword_def visit_keyword_def)
  moreover have "visit fname (ast_keyword PNone (PNode cls fs pos) p) = visit fname (PNode cls fs pos)"
    by (simp_all add: ast_keyword_def andthen_ok_right andthen_ok_left
        del: visit.simps(1) add: visit.simps(1)[of _ "''keyword''"])
  moreover have "visit_keyword fname (ast_keyword (PStr (k0 # k)) v (l, c)) =
       ([\<lparr>row_name = PStr (k0 # k), row_line = l, row_column = c + 1, row_file = fname\<rparr>], None)"
    by (simp add: ast_keyword_def visit_keyword_def)
  ultimately show ?thesis by (simp only: simp_thms)
qed

end
